theory Spec2Isabelle
  imports Complex_Main "HOL-Library.Word" "HOL-Library.Log_Nat"
begin

section \<open>The tree control of the skins2 interface (ctrl\_tree.cpp)\<close>

text \<open>
  The control \<^verbatim>\<open>CtrlTree\<close> shows a window over a tree of playlist items. The class of the
  tree itself (\<^verbatim>\<open>VarTree\<close>), the position variable (\<^verbatim>\<open>VarPercent\<close>), the font and the
  graphics are collaborators whose code is not part of ctrl\_tree.cpp; they are modelled
  from their description and marked so. Everything else follows ctrl\_tree.cpp line by line.

  Conventions of the embedding:
  \<^item> a \<^verbatim>\<open>VarTree::Iterator\<close> is the identity of the item it points to, \<open>None\<close> being
    \<^verbatim>\<open>m_rTree.end()\<close>; a \<^verbatim>\<open>VarTree*\<close> is the same, \<open>None\<close> being \<^verbatim>\<open>NULL\<close>;
  \<^item> \<^verbatim>\<open>int\<close> is \<open>int\<close>: the values are item counts and pixel coordinates, far from
    the 32-bit limits;
  \<^item> \<^verbatim>\<open>double\<close> and \<^verbatim>\<open>float\<close> are the binary floating-point numbers with 53 and 24
    bits of precision: every operation rounds its exact result to the nearest number of its
    type, and a division by zero gives an infinity or NaN;
  \<^item> dereferencing an iterator that points to no item of the tree, or the null position, is
    an error value; so is \<^verbatim>\<open>lrint\<close> of a value that is not finite, whose result C leaves
    unspecified.
\<close>

subsection \<open>Floating-point numbers\<close>

text \<open>
  \<open>round_half_even\<close> rounds a rational to the nearest integer, a tie to the even one.
  \<open>fp_round p\<close> rounds a rational to the nearest number with \<open>p\<close> bits of precision, a tie
  to the one with the even significand (the default rounding mode): \<open>ilog2\<close> is the binary
  exponent of a positive rational, and the significand is the quotient by 2 to the power of
  the exponent less \<open>p - 1\<close>, rounded to an integer. The range of the exponent is not bounded:
  the values that the control computes are sums, products and quotients of item counts and
  of positions in \<open>[0, 1]\<close>, far from the overflow and from the subnormal numbers of both
  types.
\<close>

definition round_half_even :: "rat \<Rightarrow> int" where
  "round_half_even x =
     (let f = \<lfloor>x\<rfloor>; r = x - of_int f
      in if r < 1 / 2 then f
         else if 1 / 2 < r then f + 1
         else if even f then f else f + 1)"

definition pow2 :: "int \<Rightarrow> rat" where
  "pow2 e = (if 0 \<le> e then 2 ^ nat e else 1 / 2 ^ nat (- e))"

definition ilog2 :: "rat \<Rightarrow> int" where
  "ilog2 x =
     (case quotient_of x of
        (a, b) \<Rightarrow> (let e = bitlen a - bitlen b in if pow2 e \<le> x then e else e - 1))"

definition fp_round :: "nat \<Rightarrow> rat \<Rightarrow> rat" where
  "fp_round p x =
     (if x = 0 then 0
      else (let e = ilog2 \<bar>x\<bar> - (int p - 1);
                m = round_half_even (\<bar>x\<bar> / pow2 e)
            in sgn x * of_int m * pow2 e))"

text \<open>
  A value of type \<^verbatim>\<open>double\<close> or \<^verbatim>\<open>float\<close>: a rational, an infinity or NaN. The zero
  has no sign: the only divisors of the control that can be zero are conversions of the
  \<^verbatim>\<open>int\<close> 0, the positive zero. The operations take the precision of their type;
  \<open>fp_cast\<close> is the conversion to a type of that precision, \<open>d_of_int\<close> is
  \<^verbatim>\<open>(double)n\<close> (exact for an \<^verbatim>\<open>int\<close>) and \<open>f_of_int\<close> is \<^verbatim>\<open>(float)n\<close>. Comparisons
  with NaN are false, but for \<^verbatim>\<open>!=\<close>, which is true.
\<close>

datatype fp = Finite rat | PlusInf | MinusInf | NaN

definition fp_cast :: "nat \<Rightarrow> fp \<Rightarrow> fp" where
  "fp_cast p x = (case x of Finite a \<Rightarrow> Finite (fp_round p a) | _ \<Rightarrow> x)"

definition d_of_int :: "int \<Rightarrow> fp" where
  "d_of_int n = Finite (of_int n)"

definition f_of_int :: "int \<Rightarrow> fp" where
  "f_of_int n = Finite (fp_round 24 (of_int n))"

fun fp_sgn :: "fp \<Rightarrow> rat" where
  "fp_sgn (Finite a) = sgn a"
| "fp_sgn PlusInf = 1"
| "fp_sgn MinusInf = - 1"
| "fp_sgn NaN = 0"

definition inf_of_sign :: "rat \<Rightarrow> fp" where
  "inf_of_sign c = (if c = 0 then NaN else if 0 < c then PlusInf else MinusInf)"

fun fp_neg :: "fp \<Rightarrow> fp" where
  "fp_neg (Finite a) = Finite (- a)"
| "fp_neg PlusInf = MinusInf"
| "fp_neg MinusInf = PlusInf"
| "fp_neg NaN = NaN"

fun fp_add :: "nat \<Rightarrow> fp \<Rightarrow> fp \<Rightarrow> fp" where
  "fp_add p (Finite a) (Finite b) = Finite (fp_round p (a + b))"
| "fp_add p NaN y = NaN"
| "fp_add p x NaN = NaN"
| "fp_add p PlusInf MinusInf = NaN"
| "fp_add p MinusInf PlusInf = NaN"
| "fp_add p (Finite a) y = y"
| "fp_add p x y = x"

definition fp_sub :: "nat \<Rightarrow> fp \<Rightarrow> fp \<Rightarrow> fp" where
  "fp_sub p x y = fp_add p x (fp_neg y)"

fun fp_mul :: "nat \<Rightarrow> fp \<Rightarrow> fp \<Rightarrow> fp" where
  "fp_mul p (Finite a) (Finite b) = Finite (fp_round p (a * b))"
| "fp_mul p x y = inf_of_sign (fp_sgn x * fp_sgn y)"

fun fp_div :: "nat \<Rightarrow> fp \<Rightarrow> fp \<Rightarrow> fp" where
  "fp_div p (Finite a) (Finite b) =
     (if b = 0 then inf_of_sign a else Finite (fp_round p (a / b)))"
| "fp_div p (Finite a) NaN = NaN"
| "fp_div p (Finite a) y = Finite 0"
| "fp_div p x (Finite b) = inf_of_sign (fp_sgn x * (if b < 0 then - 1 else 1))"
| "fp_div p x y = NaN"

fun fp_less :: "fp \<Rightarrow> fp \<Rightarrow> bool" where
  "fp_less (Finite a) (Finite b) = (a < b)"
| "fp_less NaN y = False"
| "fp_less x NaN = False"
| "fp_less x MinusInf = False"
| "fp_less PlusInf y = False"
| "fp_less x y = True"

definition fp_neq :: "fp \<Rightarrow> fp \<Rightarrow> bool" where
  "fp_neq x y = (x = NaN \<or> y = NaN \<or> x \<noteq> y)"

text \<open>
  \<^verbatim>\<open>lrint\<close> rounds to the nearest integer, a tie to the even one (the default rounding
  mode); its result for an infinity or NaN is unspecified.
\<close>

definition lrint :: "fp \<Rightarrow> int option" where
  "lrint x = (case x of Finite a \<Rightarrow> Some (round_half_even a) | _ \<Rightarrow> None)"

subsection \<open>The tree (VarTree)\<close>

text \<open>
  Modelled from the spec: the class \<^verbatim>\<open>VarTree\<close> (utils/var\_tree.hpp) is missing. An item has
  a stable identity, a label, the flags selected, expanded, deleted and playing, and an ordered
  sequence of children. The root \<^verbatim>\<open>m_rTree\<close> is the list of the items of depth 1.
\<close>

datatype item = Item (m_id: nat) (m_string: "string option") (m_selected: bool)
  (m_expanded: bool) (m_deleted: bool) (m_playing: bool) (m_children: "item list")

type_synonym tree = "item list"
type_synonym iterator = "nat option"
type_synonym row = "nat \<times> item"

text \<open>
  Modelled from the spec: the orders of traversal. A row is an item with its depth (the root
  has depth 0). \<open>all_rows\<close> is the document order of all items; \<open>leaf_rows\<close> the items without
  children, in document order (flat mode); \<open>visible_rows\<close> the items reachable through
  expanded ancestors, in depth-first pre-order (hierarchical mode).
\<close>

fun all_rows :: "nat \<Rightarrow> item \<Rightarrow> row list" where
  "all_rows d (Item i l s e del p cs) =
     (d, Item i l s e del p cs) # concat (map (all_rows (Suc d)) cs)"

fun leaf_rows :: "nat \<Rightarrow> item \<Rightarrow> row list" where
  "leaf_rows d (Item i l s e del p cs) =
     (if cs = [] then [(d, Item i l s e del p cs)]
      else concat (map (leaf_rows (Suc d)) cs))"

fun visible_rows :: "nat \<Rightarrow> item \<Rightarrow> row list" where
  "visible_rows d (Item i l s e del p cs) =
     (d, Item i l s e del p cs) #
     (if e then concat (map (visible_rows (Suc d)) cs) else [])"

definition tree_rows :: "tree \<Rightarrow> row list" where
  "tree_rows t = concat (map (all_rows 1) t)"

definition participating :: "bool \<Rightarrow> tree \<Rightarrow> row list" where
  "participating flat t =
     (if flat then concat (map (leaf_rows 1) t) else concat (map (visible_rows 1) t))"

definition row_id :: "row \<Rightarrow> nat" where
  "row_id r = m_id (snd r)"

definition row_depth :: "row \<Rightarrow> int" where
  "row_depth r = int (fst r)"

text \<open>Dereferencing an iterator: the item it points to, if the tree has it.\<close>

definition deref :: "tree \<Rightarrow> iterator \<Rightarrow> row option" where
  "deref t it =
     (case it of None \<Rightarrow> None
      | Some i \<Rightarrow> find (\<lambda>r. row_id r = i) (tree_rows t))"

text \<open>
  Modelled from the spec: the traversal primitives of \<^verbatim>\<open>VarTree\<close>. \<open>first_of\<close> is
  \<^verbatim>\<open>begin()\<close> or \<^verbatim>\<open>firstLeaf()\<close>; \<open>next_in\<close> is \<^verbatim>\<open>getNextLeaf\<close> or
  \<^verbatim>\<open>getNextVisibleItem\<close>, \<open>prev_in\<close> is \<^verbatim>\<open>getPrevLeaf\<close> or \<^verbatim>\<open>getPrevVisibleItem\<close>:
  the next or previous item of the order, or the end sentinel (\<open>next_item\<close> and \<open>prev_item\<close>
  below say what they answer for a reference that is not in the order).
\<close>

definition first_of :: "row list \<Rightarrow> iterator" where
  "first_of rs = (case rs of [] \<Rightarrow> None | r # _ \<Rightarrow> Some (row_id r))"

fun next_in :: "row list \<Rightarrow> iterator \<Rightarrow> iterator" where
  "next_in [] it = None"
| "next_in (r # rs) it = (if it = Some (row_id r) then first_of rs else next_in rs it)"

fun prev_in :: "row list \<Rightarrow> iterator \<Rightarrow> iterator" where
  "prev_in [] it = None"
| "prev_in [r] it = None"
| "prev_in (r # r' # rs) it =
     (if it = Some (row_id r) then None
      else if it = Some (row_id r') then Some (row_id r)
      else prev_in (r' # rs) it)"

text \<open>
  Modelled from the spec: \<^verbatim>\<open>getLeaf(n)\<close> and \<^verbatim>\<open>getVisibleItem(n)\<close>, the item of rank
  \<open>n\<close> (1-based, counted from the start of the traversal), the end sentinel when there is no
  such item; \<^verbatim>\<open>getRank\<close>, the rank of an item by linear scan from the start, undefined
  (\<open>None\<close>) for an item that is not in the traversal.
\<close>

definition item_at_rank :: "row list \<Rightarrow> int \<Rightarrow> iterator" where
  "item_at_rank rs n =
     (if 1 \<le> n \<and> n \<le> int (length rs) then Some (row_id (rs ! nat (n - 1))) else None)"

fun rank_in :: "row list \<Rightarrow> iterator \<Rightarrow> int option" where
  "rank_in [] it = None"
| "rank_in (r # rs) it =
     (if it = Some (row_id r) then Some 1
      else case rank_in rs it of None \<Rightarrow> None | Some n \<Rightarrow> Some (n + 1))"

definition findById :: "tree \<Rightarrow> nat \<Rightarrow> iterator" where
  "findById t i = (case deref t (Some i) of None \<Rightarrow> None | Some r \<Rightarrow> Some i)"

text \<open>
  Modelled from the spec: the setters of an item's flags, through an iterator. They change
  the item with that identity and nothing else.
\<close>

fun update_item :: "nat \<Rightarrow> (item \<Rightarrow> item) \<Rightarrow> item \<Rightarrow> item" where
  "update_item i f (Item j l s e del p cs) =
     (if i = j then f (Item j l s e del p (map (update_item i f) cs))
      else Item j l s e del p (map (update_item i f) cs))"

definition set_selected :: "bool \<Rightarrow> item \<Rightarrow> item" where
  "set_selected b x =
     Item (m_id x) (m_string x) b (m_expanded x) (m_deleted x) (m_playing x) (m_children x)"

definition set_expanded :: "bool \<Rightarrow> item \<Rightarrow> item" where
  "set_expanded b x =
     Item (m_id x) (m_string x) (m_selected x) b (m_deleted x) (m_playing x) (m_children x)"

definition setSelected :: "tree \<Rightarrow> nat \<Rightarrow> bool \<Rightarrow> tree" where
  "setSelected t i b = map (update_item i (set_selected b)) t"

definition setExpanded :: "tree \<Rightarrow> nat \<Rightarrow> bool \<Rightarrow> tree" where
  "setExpanded t i b = map (update_item i (set_expanded b)) t"

text \<open>
  Modelled from the spec: \<^verbatim>\<open>delSelected()\<close> removes all selected items from the model (an
  item goes with its subtree); \<^verbatim>\<open>ensureExpanded(item)\<close> expands every ancestor of the item.
\<close>

fun del_selected_item :: "item \<Rightarrow> item list" where
  "del_selected_item (Item i l s e del p cs) =
     (if s then [] else [Item i l s e del p (concat (map del_selected_item cs))])"

definition delSelected :: "tree \<Rightarrow> tree" where
  "delSelected t = concat (map del_selected_item t)"

fun contains :: "nat \<Rightarrow> item \<Rightarrow> bool" where
  "contains i (Item j l s e del p cs) = (i = j \<or> list_ex (contains i) cs)"

fun expand_towards :: "nat \<Rightarrow> item \<Rightarrow> item" where
  "expand_towards i (Item j l s e del p cs) =
     Item j l s (e \<or> list_ex (contains i) cs) del p (map (expand_towards i) cs)"

definition ensureExpanded :: "tree \<Rightarrow> iterator \<Rightarrow> tree" where
  "ensureExpanded t it =
     (case it of None \<Rightarrow> t | Some i \<Rightarrow> map (expand_towards i) t)"

subsection \<open>Geometry, font, bitmaps and the cached image\<close>

text \<open>
  Modelled from the spec: the classes \<^verbatim>\<open>Position\<close>, \<^verbatim>\<open>GenericBitmap\<close>, \<^verbatim>\<open>GenericFont\<close> and
  \<^verbatim>\<open>OSGraphics\<close> are missing. A position is the rectangle of the control; a bitmap has a
  width and a height in pixels (and a name, to tell bitmaps apart); a font has a size in pixels
  and draws a string into a bitmap or fails (\<^verbatim>\<open>NULL\<close>); a graphics is the sequence of the
  drawing operations it received. Pixel sizes of fonts and bitmaps are natural numbers, so
  \<^verbatim>\<open>itemHeight()\<close> is at least \<^verbatim>\<open>LINE_INTERVAL\<close> = 1.
\<close>

type_synonym color = "32 word"

record position =
  getLeft :: int
  getTop :: int
  getWidth :: int
  getHeight :: int

record bitmap =
  bmp_name :: string
  bmp_width :: nat
  bmp_height :: nat

record font =
  getSize :: nat
  drawString :: "string \<Rightarrow> color \<Rightarrow> int \<Rightarrow> bitmap option"

datatype draw_op =
    DrawScaled int int
  | FillRect int int int int color
  | DrawBitmap bitmap int int int int int int bool

record graphics =
  gfx_width :: int
  gfx_height :: int
  gfx_ops :: "draw_op list"

text \<open>
  The pointer \<^verbatim>\<open>m_pImage\<close>: null, a graphics owned by the control, or the address of a
  graphics that was deleted (\<^verbatim>\<open>delete m_pImage\<close> does not reset the pointer).
\<close>

datatype image_ptr = NullImage | Image graphics | DeletedImage

fun delete_image :: "image_ptr \<Rightarrow> image_ptr" where
  "delete_image NullImage = NullImage"
| "delete_image (Image g) = DeletedImage"
| "delete_image DeletedImage = DeletedImage"

subsection \<open>The control\<close>

text \<open>
  The state of the control and of the two variables it observes. \<open>m_positionVar\<close> is the
  value that the position variable of the tree holds (\<^verbatim>\<open>m_rTree.getPositionVar().get()\<close>).
  Modelled from the spec: the class \<^verbatim>\<open>VarPercent\<close> (utils/var\_percent.hpp) is missing, and
  the spec does not fix the type that stores the value; \<open>m_positionBits\<close> is the precision of
  that type, 24 for a \<^verbatim>\<open>float\<close> (as \<^verbatim>\<open>f_new\<close> at the end of \<^verbatim>\<open>handleEvent\<close>) and 53
  for a \<^verbatim>\<open>double\<close>.
\<close>

record ctrl =
  m_rTree :: tree
  m_positionVar :: fp
  m_positionBits :: nat
  getPosition :: "position option"
  m_rFont :: font
  m_pBgBitmap :: "bitmap option"
  m_pItemBitmap :: "bitmap option"
  m_pOpenBitmap :: "bitmap option"
  m_pClosedBitmap :: "bitmap option"
  m_fgColor :: color
  m_playColor :: color
  m_bgColor1 :: color
  m_bgColor2 :: color
  m_selColor :: color
  m_flat :: bool
  m_firstPos :: iterator
  m_pLastSelected :: "nat option"
  m_pImage :: image_ptr
  m_dontMove :: bool
  m_pScaledBitmap :: "(int \<times> int) option"

datatype error = InvalidIterator | NullPosition | RankUndefined | LrintUnspecified

text \<open>The division of C on \<^verbatim>\<open>int\<close> truncates towards zero.\<close>

definition c_div :: "int \<Rightarrow> int \<Rightarrow> int" where
  "c_div a b = sgn a * sgn b * (\<bar>a\<bar> div \<bar>b\<bar>)"

definition max_height :: "bitmap option \<Rightarrow> int \<Rightarrow> int" where
  "max_height b h = (case b of None \<Rightarrow> h | Some bmp \<Rightarrow> max (int (bmp_height bmp)) h)"

definition max_width :: "bitmap option \<Rightarrow> int \<Rightarrow> int" where
  "max_width b w = (case b of None \<Rightarrow> w | Some bmp \<Rightarrow> max (int (bmp_width bmp)) w)"

definition itemHeight :: "ctrl \<Rightarrow> int" where
  "itemHeight s =
     (let itemHeight = int (getSize (m_rFont s));
          itemHeight = (if \<not> m_flat s
                        then max_height (m_pOpenBitmap s) (max_height (m_pClosedBitmap s) itemHeight)
                        else itemHeight);
          itemHeight = max_height (m_pItemBitmap s) itemHeight
      in itemHeight + 1)"

definition itemImageWidth :: "ctrl \<Rightarrow> int" where
  "itemImageWidth s =
     (let bitmapWidth = 5;
          bitmapWidth = (if \<not> m_flat s
                         then max_width (m_pOpenBitmap s) (max_width (m_pClosedBitmap s) bitmapWidth)
                         else bitmapWidth);
          bitmapWidth = max_width (m_pItemBitmap s) bitmapWidth
      in bitmapWidth + 2)"

definition maxItems :: "ctrl \<Rightarrow> int" where
  "maxItems s =
     (case getPosition s of None \<Rightarrow> - 1
      | Some pPos \<Rightarrow> c_div (getHeight pPos) (itemHeight s))"

text \<open>
  The traversal of the control's mode, its start (\<^verbatim>\<open>m_flat ? firstLeaf() : begin()\<close>), the
  step (\<^verbatim>\<open>m_flat ? getNextLeaf(it) : getNextVisibleItem(it)\<close>) and the count
  (\<^verbatim>\<open>m_flat ? countLeafs() : visibleItems()\<close>).
\<close>

definition traversal :: "ctrl \<Rightarrow> row list" where
  "traversal s = participating (m_flat s) (m_rTree s)"

definition traversal_start :: "ctrl \<Rightarrow> iterator" where
  "traversal_start s = first_of (traversal s)"

definition tree_begin :: "ctrl \<Rightarrow> iterator" where
  "tree_begin s = (case m_rTree s of [] \<Rightarrow> None | x # _ \<Rightarrow> Some (m_id x))"

text \<open>
  \<open>rows_from\<close> is the rest of the traversal from an iterator on; it is empty for the end
  sentinel and for an item that does not participate.
\<close>

definition rows_from :: "row list \<Rightarrow> iterator \<Rightarrow> row list" where
  "rows_from rs it = dropWhile (\<lambda>r. Some (row_id r) \<noteq> it) rs"

text \<open>
  Modelled from the spec: the step from a reference that is not in the order. An iterator
  of the control can point to an item of the tree that does not participate: to a node in
  flat mode (after \<^verbatim>\<open>m_firstPos = m_rTree.begin()\<close>), to an item under a closed node in
  hierarchical mode (after the node was closed). The spec speaks of the next and the previous
  item in the order of the mode: from such an item they are the nearest participating items
  after it (\<open>following\<close>) and before it (\<open>preceding\<close>) in document order. From the end
  sentinel, and from a reference to no item of the tree, the model answers the end sentinel.
\<close>

definition participates :: "ctrl \<Rightarrow> row \<Rightarrow> bool" where
  "participates s r = (row_id r \<in> set (map row_id (traversal s)))"

definition following :: "ctrl \<Rightarrow> iterator \<Rightarrow> row list" where
  "following s it = filter (participates s) (tl (rows_from (tree_rows (m_rTree s)) it))"

definition preceding :: "ctrl \<Rightarrow> iterator \<Rightarrow> row list" where
  "preceding s it =
     filter (participates s) (takeWhile (\<lambda>r. Some (row_id r) \<noteq> it) (tree_rows (m_rTree s)))"

definition last_of :: "row list \<Rightarrow> iterator" where
  "last_of rs = (case rev rs of [] \<Rightarrow> None | r # _ \<Rightarrow> Some (row_id r))"

definition next_item :: "ctrl \<Rightarrow> iterator \<Rightarrow> iterator" where
  "next_item s it =
     (if rows_from (traversal s) it \<noteq> [] then next_in (traversal s) it
      else first_of (following s it))"

definition prev_item :: "ctrl \<Rightarrow> iterator \<Rightarrow> iterator" where
  "prev_item s it =
     (if rows_from (traversal s) it \<noteq> [] then prev_in (traversal s) it
      else case deref (m_rTree s) it of
             None \<Rightarrow> None
           | Some r \<Rightarrow> last_of (preceding s it))"

definition item_count :: "ctrl \<Rightarrow> int" where
  "item_count s = int (length (traversal s))"

definition getRank :: "ctrl \<Rightarrow> iterator \<Rightarrow> int option" where
  "getRank s it = rank_in (traversal s) it"

subsection \<open>Building the image (makeImage)\<close>

text \<open>
  The loops of \<^verbatim>\<open>makeImage\<close> and of \<^verbatim>\<open>findItemAtPos\<close> start at \<^verbatim>\<open>m_firstPos\<close> itself
  and step to the next item of the mode. \<open>rows_at\<close> is the sequence of the items they meet:
  the rest of the traversal from the iterator on when the item participates; otherwise the
  item itself, then the traversal from its successor on. It is empty at the end sentinel, and
  for a reference to no item of the tree (which the source would dereference; the anchor is
  such a reference only after \<^verbatim>\<open>delSelected\<close> removed its item). \<open>advance\<close> is
  \<^verbatim>\<open>do { it = next( it ); } while( it != m_rTree.end() && it->isDeleted() );\<close>
  applied to the rest after the current row.
\<close>

definition rows_at :: "ctrl \<Rightarrow> iterator \<Rightarrow> row list" where
  "rows_at s it =
     (if rows_from (traversal s) it \<noteq> [] then rows_from (traversal s) it
      else case deref (m_rTree s) it of
             None \<Rightarrow> []
           | Some r \<Rightarrow> r # rows_from (traversal s) (next_item s it))"

definition advance :: "row list \<Rightarrow> row list" where
  "advance rest = dropWhile (\<lambda>r. m_deleted (snd r)) rest"

text \<open>
  The two background loops \<^verbatim>\<open>for( int yPos = 0; yPos < height; yPos += i_itemHeight )\<close>.
  The item height is positive at every call; the test \<open>0 < ih\<close> only makes the recursion
  well-founded for every argument.
\<close>

function bg_bitmap_loop :: "color \<Rightarrow> int \<Rightarrow> int \<Rightarrow> int \<Rightarrow> int \<Rightarrow> row list \<Rightarrow> draw_op list" where
  "bg_bitmap_loop sel width height ih yPos rows =
     (if yPos < height \<and> 0 < ih then
        (case rows of
           [] \<Rightarrow> bg_bitmap_loop sel width height ih (yPos + ih) []
         | r # rest \<Rightarrow>
             (if m_selected (snd r)
              then [FillRect 0 yPos width (min ih (height - yPos)) sel] else []) @
             bg_bitmap_loop sel width height ih (yPos + ih) (advance rest))
      else [])"
  by pat_completeness auto
termination
  by (relation "measure (\<lambda>(sel, width, height, ih, yPos, rows). nat (height - yPos))") auto

function bg_color_loop ::
  "color \<Rightarrow> color \<Rightarrow> color \<Rightarrow> int \<Rightarrow> int \<Rightarrow> int \<Rightarrow> int \<Rightarrow> row list \<Rightarrow> color \<Rightarrow> draw_op list" where
  "bg_color_loop c1 c2 sel width height ih yPos rows bgColor =
     (if yPos < height \<and> 0 < ih then
        (let rectHeight = min ih (height - yPos);
             bgColor' = (if bgColor = c1 then c2 else c1)
         in case rows of
              [] \<Rightarrow> FillRect 0 yPos width rectHeight bgColor #
                    bg_color_loop c1 c2 sel width height ih (yPos + ih) [] bgColor'
            | r # rest \<Rightarrow>
                FillRect 0 yPos width rectHeight (if m_selected (snd r) then sel else bgColor) #
                bg_color_loop c1 c2 sel width height ih (yPos + ih) (advance rest) bgColor')
      else [])"
  by pat_completeness auto
termination
  by (relation "measure (\<lambda>(c1, c2, sel, width, height, ih, yPos, rows, bgColor). nat (height - yPos))")
     auto

declare bg_bitmap_loop.simps [simp del]
declare bg_color_loop.simps [simp del]

text \<open>
  One turn of the loop that draws the rows (the body of
  \<^verbatim>\<open>while( it != m_rTree.end() && yPos < height )\<close>): the label could not be drawn
  (\<^verbatim>\<open>return\<close>), the icon starts below the control (\<^verbatim>\<open>break\<close>), or the row was drawn and
  \<^verbatim>\<open>yPos\<close> moved on.
\<close>

datatype row_result = TextFailed | IconBelow | Drawn "draw_op list" int

definition draw_row :: "ctrl \<Rightarrow> int \<Rightarrow> int \<Rightarrow> int \<Rightarrow> row \<Rightarrow> row_result" where
  "draw_row s width height yPos r =
     (let it = snd r;
          i_itemHeight = itemHeight s;
          bitmapWidth = itemImageWidth s;
          color = (if m_playing it then m_playColor s else m_fgColor s)
      in case m_string it of
           None \<Rightarrow> Drawn [] yPos
         | Some pStr \<Rightarrow>
             (let depth = (if m_flat s then 1 else row_depth r)
              in case drawString (m_rFont s) pStr color (width - bitmapWidth * depth) of
                   None \<Rightarrow> TextFailed
                 | Some pText \<Rightarrow>
                     (let m_pCurBitmap =
                            (if m_children it \<noteq> []
                             then (if m_expanded it then m_pOpenBitmap s else m_pClosedBitmap s)
                             else m_pItemBitmap s);
                          yPos2 = (case m_pCurBitmap of None \<Rightarrow> yPos
                                   | Some b \<Rightarrow> yPos + c_div (i_itemHeight - int (bmp_height b) + 1) 2);
                          icon = (case m_pCurBitmap of None \<Rightarrow> []
                                  | Some b \<Rightarrow>
                                      [DrawBitmap b 0 0 (bitmapWidth * (depth - 1)) yPos2
                                         (int (bmp_width b))
                                         (min (int (bmp_height b)) (height - yPos2)) True]);
                          yPos1 = yPos + (i_itemHeight - int (bmp_height pText));
                          ySrc = (if yPos1 < 0 then - yPos1 else 0);
                          yPos1 = (if yPos1 < 0 then 0 else yPos1);
                          lineHeight = min (int (bmp_height pText) - ySrc) (height - yPos1)
                      in if m_pCurBitmap \<noteq> None \<and> yPos2 \<ge> height then IconBelow
                         else Drawn
                                (icon @
                                 [DrawBitmap pText 0 ySrc (bitmapWidth * depth) yPos1
                                    (int (bmp_width pText)) lineHeight True])
                                (yPos1 + (int (bmp_height pText) - ySrc)))))"

text \<open>
  The loop over the rows. It gives the operations drawn and whether the loop came to its
  end (\<open>False\<close>: a label could not be drawn and \<^verbatim>\<open>makeImage\<close> returned from the middle).
\<close>

function text_loop :: "ctrl \<Rightarrow> int \<Rightarrow> int \<Rightarrow> int \<Rightarrow> row list \<Rightarrow> draw_op list \<times> bool" where
  "text_loop s width height yPos rows =
     (case rows of
        [] \<Rightarrow> ([], True)
      | r # rest \<Rightarrow>
          if yPos < height then
            (case draw_row s width height yPos r of
               TextFailed \<Rightarrow> ([], False)
             | IconBelow \<Rightarrow> ([], True)
             | Drawn ops yPos' \<Rightarrow>
                 (case text_loop s width height yPos' (advance rest) of
                    (ops', ok) \<Rightarrow> (ops @ ops', ok)))
          else ([], True))"
  by pat_completeness auto
termination
  by (relation "measure (\<lambda>(s, width, height, yPos, rows). length rows)")
     (auto simp: advance_def le_imp_less_Suc length_dropWhile_le)

declare text_loop.simps [simp del]

definition background :: "ctrl \<Rightarrow> int \<Rightarrow> int \<Rightarrow> row list \<Rightarrow> draw_op list" where
  "background s width height rows =
     (case m_pBgBitmap s of
        Some bg \<Rightarrow>
          DrawScaled width height #
          bg_bitmap_loop (m_selColor s) width height (itemHeight s) 0 rows
      | None \<Rightarrow>
          FillRect 0 0 width height (m_bgColor1 s) #
          bg_color_loop (m_bgColor1 s) (m_bgColor2 s) (m_selColor s) width height
            (itemHeight s) 0 rows (m_bgColor1 s))"

text \<open>
  \<^verbatim>\<open>makeImage\<close>: the old image is deleted first; without a position nothing else happens;
  otherwise a new graphics is created and assigned to \<^verbatim>\<open>m_pImage\<close> at once, then drawn
  into. The state after the call holds whatever was drawn when the function returned.
\<close>

definition makeImage :: "ctrl \<Rightarrow> ctrl" where
  "makeImage s0 =
     (let s = s0\<lparr>m_pImage := delete_image (m_pImage s0)\<rparr>
      in case getPosition s of
           None \<Rightarrow> s
         | Some pPos \<Rightarrow>
             (let width = getWidth pPos;
                  height = getHeight pPos;
                  rows = rows_at s (m_firstPos s);
                  scaled = (case m_pBgBitmap s of None \<Rightarrow> m_pScaledBitmap s
                            | Some bg \<Rightarrow> Some (width, height));
                  ops = background s width height rows @ fst (text_loop s width height 0 rows)
              in s\<lparr>m_pScaledBitmap := scaled,
                   m_pImage := Image \<lparr>gfx_width = width, gfx_height = height, gfx_ops = ops\<rparr>\<rparr>))"

subsection \<open>The position variable and its observer\<close>

text \<open>
  \<^verbatim>\<open>CtrlTree::onUpdate( Subject<VarPercent> &rPercent, void* arg )\<close>, the observer of the
  position variable (\<^verbatim>\<open>notifyLayout()\<close> tells the surrounding layout to repaint and is not
  part of the state). \<open>position_anchor\<close> is the item that the lines 200 to 221 compute, the
  first item to display: the product \<^verbatim>\<open>(1.0 - rVarPos.get()) * (double)excessItems\<close> is a
  product of doubles.
\<close>

definition position_anchor :: "ctrl \<Rightarrow> error + iterator" where
  "position_anchor s =
     (let it = traversal_start s;
          excessItems = item_count s - maxItems s
      in if excessItems > 0
         then (case lrint (fp_mul 53 (fp_sub 53 (Finite 1) (m_positionVar s))
                             (d_of_int excessItems)) of
                 None \<Rightarrow> Inl LrintUnspecified
               | Some n \<Rightarrow> Inr (item_at_rank (traversal s) (n + 1)))
         else Inr it)"

definition onUpdate_percent :: "ctrl \<Rightarrow> error + ctrl" where
  "onUpdate_percent s =
     (if m_dontMove s then Inr s
      else case position_anchor s of
             Inl e \<Rightarrow> Inl e
           | Inr it \<Rightarrow>
               Inr (if m_firstPos s \<noteq> it then makeImage (s\<lparr>m_firstPos := it\<rparr>) else s))"

text \<open>
  Modelled from the spec: \<^verbatim>\<open>VarPercent::set\<close> is missing. The position is a normalized
  value in \<open>[0, 1]\<close> and clamping is the variable's own responsibility; a change of the value
  is notified to the observers, of which the control is one. The argument is converted to the
  type of the variable, then clamped by two comparisons (which NaN passes), then compared
  with the value held.
\<close>

definition clamp_percentage :: "nat \<Rightarrow> fp \<Rightarrow> fp" where
  "clamp_percentage p v =
     (let percentage = fp_cast p v;
          percentage = (if fp_less percentage (Finite 0) then Finite 0 else percentage);
          percentage = (if fp_less (Finite 1) percentage then Finite 1 else percentage)
      in percentage)"

definition set_position :: "ctrl \<Rightarrow> fp \<Rightarrow> error + ctrl" where
  "set_position s v =
     (let percentage = clamp_percentage (m_positionBits s) v
      in if fp_neq (m_positionVar s) percentage
         then onUpdate_percent (s\<lparr>m_positionVar := percentage\<rparr>)
         else Inr s)"

subsection \<open>ensureVisible\<close>

definition ensureVisible :: "ctrl \<Rightarrow> iterator \<Rightarrow> error + bool \<times> ctrl" where
  "ensureVisible s0 item =
     (let s = s0\<lparr>m_rTree := ensureExpanded (m_rTree s0) item\<rparr>
      in case getRank s (m_firstPos s) of
           None \<Rightarrow> Inl RankUndefined
         | Some rank1 \<Rightarrow>
             (case getRank s item of
                None \<Rightarrow> Inl RankUndefined
              | Some rank2 \<Rightarrow>
                  (let firstPosIndex = rank1 - 1;
                       focusItemIndex = rank2 - 1
                   in if focusItemIndex < firstPosIndex \<or>
                         focusItemIndex > firstPosIndex + maxItems s - 1
                      then
                        (let indexMax = item_count s - 1
                         in case set_position s
                                   (fp_sub 53 (Finite 1)
                                      (fp_div 53 (d_of_int focusItemIndex) (d_of_int indexMax))) of
                              Inl e \<Rightarrow> Inl e
                            | Inr s' \<Rightarrow> Inr (True, s'))
                      else Inr (False, s))))"

subsection \<open>The observer of the tree: an item was deleted\<close>

text \<open>
  The branch \<^verbatim>\<open>arg->type == arg->DeleteItem\<close> of
  \<^verbatim>\<open>CtrlTree::onUpdate( Subject<VarTree, tree_update> &rTree, tree_update *arg )\<close>.
  \<open>walk_back\<close> is its loop
  \<^verbatim>\<open>while( m_firstPos->isDeleted() && m_firstPos != (m_flat ? firstLeaf() : begin()) )\<close>.
\<close>

definition walk_back_measure :: "row list \<Rightarrow> iterator \<Rightarrow> nat" where
  "walk_back_measure rs it =
     (case it of None \<Rightarrow> 0
      | Some i \<Rightarrow> (case rank_in rs it of None \<Rightarrow> length rs + 1 | Some n \<Rightarrow> nat n))"

lemma rank_in_pos: "rank_in rs it = Some n \<Longrightarrow> 1 \<le> n"
  by (induction rs arbitrary: n) (auto split: if_splits option.splits)

lemma prev_in_rank:
  "prev_in rs it = Some j \<Longrightarrow>
   \<exists>m n. rank_in rs (Some j) = Some m \<and> rank_in rs it = Some n \<and> m < n"
proof (induction rs it rule: prev_in.induct)
  case (3 r r' rs it)
  show ?case
  proof (cases "it = Some (row_id r')")
    case True
    with 3 show ?thesis by (auto split: if_splits)
  next
    case False
    with 3 obtain m n where mn: "rank_in (r' # rs) (Some j) = Some m"
      "rank_in (r' # rs) it = Some n" "m < n"
      by (auto split: if_splits)
    from 3 False have ne: "it \<noteq> Some (row_id r)" by (auto split: if_splits)
    show ?thesis
    proof (cases "j = row_id r")
      case True
      with mn ne rank_in_pos[OF mn(2)] show ?thesis by auto
    next
      case False
      with mn ne show ?thesis by auto
    qed
  qed
qed simp_all

lemma rank_in_le: "rank_in rs it = Some n \<Longrightarrow> n \<le> int (length rs)"
  by (induction rs arbitrary: n) (auto split: if_splits option.splits)

lemma rank_in_ids_member:
  "i \<in> set (map row_id rs) \<Longrightarrow> \<exists>n. rank_in rs (Some i) = Some n"
  by (induction rs) auto

lemma rows_from_rank: "rows_from rs it = [] \<Longrightarrow> rank_in rs it = None"
  by (induction rs) (auto simp: rows_from_def split: if_splits)

lemma last_of_member: "last_of rs = Some j \<Longrightarrow> j \<in> set (map row_id rs)"
proof -
  assume h: "last_of rs = Some j"
  then obtain r rest where "rev rs = r # rest" "j = row_id r"
    by (auto simp: last_of_def split: list.splits)
  then have "r \<in> set (rev rs)" by simp
  with \<open>j = row_id r\<close> show ?thesis by auto
qed

lemma walk_back_decreases:
  assumes "deref (m_rTree s) it = Some r"
  shows "walk_back_measure (traversal s) (prev_item s it) < walk_back_measure (traversal s) it"
proof -
  from assms obtain i where it: "it = Some i" by (cases it) (simp_all add: deref_def)
  show ?thesis
  proof (cases "rows_from (traversal s) it = []")
    case False
    then have p: "prev_item s it = prev_in (traversal s) it" by (simp add: prev_item_def)
    show ?thesis
    proof (cases "prev_in (traversal s) it")
      case None
      with p it show ?thesis
        using rank_in_pos[of "traversal s" it]
        by (auto simp: walk_back_measure_def split: option.splits)
    next
      case (Some j)
      from prev_in_rank[OF Some] obtain m n where
        "rank_in (traversal s) (Some j) = Some m" "rank_in (traversal s) it = Some n" "m < n"
        by blast
      with Some p it rank_in_pos[of "traversal s" "Some j" m] show ?thesis
        by (auto simp: walk_back_measure_def split: option.splits)
    qed
  next
    case True
    then have n: "rank_in (traversal s) it = None" by (rule rows_from_rank)
    from True assms have p: "prev_item s it = last_of (preceding s it)"
      by (simp add: prev_item_def)
    show ?thesis
    proof (cases "last_of (preceding s it)")
      case None
      with p n it show ?thesis by (simp add: walk_back_measure_def)
    next
      case (Some j)
      from last_of_member[OF Some] have "j \<in> set (map row_id (traversal s))"
        by (auto simp: preceding_def participates_def)
      from rank_in_ids_member[OF this] obtain m where
        m: "rank_in (traversal s) (Some j) = Some m" by blast
      from rank_in_le[OF m] rank_in_pos[OF m] have "nat m < length (traversal s) + 1"
        by simp
      with Some p n it m show ?thesis by (simp add: walk_back_measure_def)
    qed
  qed
qed

function walk_back :: "ctrl \<Rightarrow> iterator \<Rightarrow> error + iterator" where
  "walk_back s it =
     (case deref (m_rTree s) it of
        None \<Rightarrow> Inl InvalidIterator
      | Some r \<Rightarrow>
          if m_deleted (snd r) \<and> it \<noteq> traversal_start s
          then walk_back s (prev_item s it)
          else Inr it)"
  by pat_completeness auto
termination
proof (relation "measure (\<lambda>(s, it). walk_back_measure (traversal s) it)")
  show "wf (measure (\<lambda>(s, it). walk_back_measure (traversal s) it))" by simp
next
  fix s :: ctrl and it :: iterator and r :: row
  assume "deref (m_rTree s) it = Some r"
  then show "((s, prev_item s it), (s, it))
        \<in> measure (\<lambda>(s, it). walk_back_measure (traversal s) it)"
    by (simp add: walk_back_decreases)
qed

declare walk_back.simps [simp del]

definition isItemVisible :: "ctrl \<Rightarrow> nat \<Rightarrow> error + bool" where
  "isItemVisible s i =
     (let it = findById (m_rTree s) i
      in case getRank s (m_firstPos s) of
           None \<Rightarrow> Inl RankUndefined
         | Some rank1 \<Rightarrow>
             (case getRank s it of
                None \<Rightarrow> Inl RankUndefined
              | Some rank2 \<Rightarrow> Inr (rank2 \<ge> rank1 \<and> rank2 \<le> rank1 + maxItems s - 1)))"

definition onUpdate_DeleteItem :: "ctrl \<Rightarrow> nat \<Rightarrow> error + ctrl" where
  "onUpdate_DeleteItem s i_id =
     (let it_old = m_firstPos s
      in case walk_back s (m_firstPos s) of
           Inl e \<Rightarrow> Inl e
         | Inr it \<Rightarrow>
             (case deref (m_rTree s) it of
                None \<Rightarrow> Inl InvalidIterator
              | Some r \<Rightarrow>
                  (let s1 = s\<lparr>m_firstPos := (if m_deleted (snd r) then tree_begin s else it)\<rparr>
                   in if m_firstPos s1 \<noteq> it_old then Inr (makeImage s1)
                      else case isItemVisible s1 i_id of
                             Inl e \<Rightarrow> Inl e
                           | Inr visible \<Rightarrow> Inr (if visible then makeImage s1 else s1))))"

subsection \<open>Events (handleEvent)\<close>

text \<open>
  The source tells the events apart by the text of the event (\<^verbatim>\<open>"key:down"\<close>,
  \<^verbatim>\<open>"mouse:left:down:ctrl,shift"\<close>, ...) and the keys by their code. \<open>KeyEnter\<close> is the key
  Enter or the space bar, \<open>KeyOther\<close> any other key (it is forwarded to the core of the
  player), \<open>MouseLeftOther\<close> any other event of the left button, \<open>OtherEvent\<close> any event
  that is not a key press, an event of the left button or the scroll wheel. The action of an
  item (\<^verbatim>\<open>m_rTree.action\<close>) calls into the playlist and is not part of the state.
\<close>

datatype direction = kUp | kDown

datatype event =
    KeyDelete
  | KeyPageDown
  | KeyPageUp
  | KeyUp
  | KeyDown
  | KeyLeft
  | KeyRight
  | KeyEnter
  | KeyOther
  | MouseLeftDownCtrlShift int int
  | MouseLeftDownCtrl int int
  | MouseLeftDownShift int int
  | MouseLeftDown int int
  | MouseLeftDblClick int int
  | MouseLeftOther int int
  | Scroll direction
  | OtherEvent

text \<open>
  \<^verbatim>\<open>findItemAtPos\<close>: from \<^verbatim>\<open>m_firstPos\<close>, step to the next item while \<^verbatim>\<open>pos != 0\<close>.
\<close>

fun find_at :: "row list \<Rightarrow> int \<Rightarrow> iterator" where
  "find_at [] pos = None"
| "find_at (r # rs) pos = (if pos \<noteq> 0 then find_at rs (pos - 1) else Some (row_id r))"

definition findItemAtPos :: "ctrl \<Rightarrow> int \<Rightarrow> iterator" where
  "findItemAtPos s pos = find_at (rows_at s (m_firstPos s)) pos"

text \<open>
  The key Delete. \<open>find_it_sel\<close> is the first loop (the last item that is not selected
  before \<^verbatim>\<open>m_pLastSelected\<close>, starting from the first item of the traversal),
  \<open>find_last_selected\<close> the second one, after \<^verbatim>\<open>m_rTree.delSelected()\<close>.
\<close>

fun find_it_sel :: "row list \<Rightarrow> nat option \<Rightarrow> iterator \<Rightarrow> iterator" where
  "find_it_sel [] pLast it_sel = it_sel"
| "find_it_sel (r # rs) pLast it_sel =
     (if Some (row_id r) = pLast then it_sel
      else find_it_sel rs pLast (if \<not> m_selected (snd r) then Some (row_id r) else it_sel))"

fun find_last_selected :: "row list \<Rightarrow> nat option \<Rightarrow> nat option" where
  "find_last_selected [] pLast = pLast"
| "find_last_selected (r # rs) pLast =
     find_last_selected rs (if m_selected (snd r) then Some (row_id r) else pLast)"

definition key_delete :: "ctrl \<Rightarrow> error + ctrl" where
  "key_delete s =
     (let it_sel = find_it_sel (traversal s) (m_pLastSelected s) (traversal_start s);
          s1 = s\<lparr>m_rTree := delSelected (m_rTree s)\<rparr>;
          s2 = s1\<lparr>m_pLastSelected := find_last_selected (traversal s1) None\<rparr>
      in if m_pLastSelected s2 = None
         then
           (case deref (m_rTree s2) it_sel of
              None \<Rightarrow> Inl InvalidIterator
            | Some r \<Rightarrow>
                Inr (makeImage
                       (s2\<lparr>m_rTree := setSelected (m_rTree s2) (row_id r) True,
                           m_pLastSelected := Some (row_id r)\<rparr>)))
         else Inr (makeImage s2))"

text \<open>
  The key Page Down. The loop starts with \<^verbatim>\<open>int i = (int)(maxItems()*1.5)\<close> and runs
  \<^verbatim>\<open>while( i >= 0 )\<close>.
\<close>

function pagedown_loop :: "ctrl \<Rightarrow> iterator \<Rightarrow> int \<Rightarrow> bool \<Rightarrow> iterator \<times> bool" where
  "pagedown_loop s it i needShow =
     (if i \<ge> 0 then
        (let it_old = it; it' = next_item s it
         in if it' = None then (it_old, needShow)
            else pagedown_loop s it' (i - 1) True)
      else (it, needShow))"
  by pat_completeness auto
termination
  by (relation "measure (\<lambda>(s, it, i, needShow). nat (i + 1))") auto

declare pagedown_loop.simps [simp del]

definition key_pagedown :: "ctrl \<Rightarrow> error + ctrl" where
  "key_pagedown s =
     (case pagedown_loop s (m_firstPos s) (c_div (3 * maxItems s) 2) False of
        (it, needShow) \<Rightarrow>
          if needShow
          then (case ensureVisible s it of
                  Inl e \<Rightarrow> Inl e
                | Inr (scrolled, s') \<Rightarrow> Inr (makeImage s'))
          else Inr s)"

text \<open>
  The key Page Up. The loop starts with \<^verbatim>\<open>int i = maxItems()\<close> and runs
  \<^verbatim>\<open>while( i >= maxItems()/2 )\<close>; \<^verbatim>\<open>ensureVisible\<close> is called whether it stepped or not.
\<close>

function pageup_loop :: "ctrl \<Rightarrow> iterator \<Rightarrow> int \<Rightarrow> iterator" where
  "pageup_loop s it i =
     (if i \<ge> c_div (maxItems s) 2 then
        (let it' = prev_item s it
         in if it' = traversal_start s then it'
            else pageup_loop s it' (i - 1))
      else it)"
  by pat_completeness auto
termination
  by (relation "measure (\<lambda>(s, it, i). nat (i - c_div (maxItems s) 2 + 1))") auto

declare pageup_loop.simps [simp del]

definition key_pageup :: "ctrl \<Rightarrow> error + ctrl" where
  "key_pageup s =
     (case ensureVisible s (pageup_loop s (m_firstPos s) (maxItems s)) of
        Inl e \<Rightarrow> Inl e
      | Inr (scrolled, s') \<Rightarrow> Inr (makeImage s'))"

text \<open>
  Modelled from the spec: the tree seen from an item. \<open>parent_of\<close> is \<^verbatim>\<open>it->parent()\<close>,
  \<open>None\<close> when the parent is the root \<^verbatim>\<open>m_rTree\<close> itself (the parent of an item of the tree
  is never null); \<open>is_first_child\<close> is \<^verbatim>\<open>it == it->parent()->begin()\<close>. The end sentinel
  of the traversals is \<^verbatim>\<open>m_rTree.end()\<close>, so \<^verbatim>\<open>next != it->parent()->end()\<close> fails only
  for an item of depth 1 whose successor is the end sentinel.
\<close>

fun parents :: "item \<Rightarrow> (nat \<times> nat) list" where
  "parents (Item i l s e del p cs) = map (\<lambda>c. (m_id c, i)) cs @ concat (map parents cs)"

definition parent_of :: "tree \<Rightarrow> nat \<Rightarrow> nat option" where
  "parent_of t i = map_of (concat (map parents t)) i"

fun first_children :: "item \<Rightarrow> nat list" where
  "first_children (Item i l s e del p cs) =
     (case cs of [] \<Rightarrow> [] | c # _ \<Rightarrow> [m_id c]) @ concat (map first_children cs)"

definition is_first_child :: "tree \<Rightarrow> nat \<Rightarrow> bool" where
  "is_first_child t i =
     (i \<in> set ((case t of [] \<Rightarrow> [] | c # _ \<Rightarrow> [m_id c]) @ concat (map first_children t)))"

text \<open>
  The keys Up, Down, Left, Right and Enter share one loop over the traversal,
  \<^verbatim>\<open>for( it = start; it != m_rTree.end(); it = next( it ) )\<close>. \<open>key_step\<close> is its body for
  the item \<open>r\<close>; the state of the loop is the control with the variables
  \<^verbatim>\<open>previousWasSelected\<close>, \<^verbatim>\<open>toShow\<close> (\<open>None\<close> while \<^verbatim>\<open>needShow\<close> is false) and
  \<^verbatim>\<open>bChangedPosition\<close>. The address of the end sentinel is the address of no item.
\<close>

datatype key = KEY_UP | KEY_DOWN | KEY_LEFT | KEY_RIGHT | KEY_ENTER

type_synonym key_state = "ctrl \<times> bool \<times> nat option \<times> bool"

fun key_step :: "key \<Rightarrow> row \<Rightarrow> key_state \<Rightarrow> key_state" where
  "key_step KEY_UP r (s, previousWasSelected, toShow, bChangedPosition) =
     (let i = row_id r; next = next_item s (Some i)
      in if \<not> is_first_child (m_rTree s) i \<or> Some i \<noteq> m_pLastSelected s
         then
           (let nextWasSelected = (next \<noteq> None \<and> next = m_pLastSelected s);
                s1 = s\<lparr>m_rTree := setSelected (m_rTree s) i nextWasSelected\<rparr>
            in if nextWasSelected
               then (s1\<lparr>m_pLastSelected := Some i\<rparr>, previousWasSelected, Some i,
                     bChangedPosition)
               else (s1, previousWasSelected, toShow, bChangedPosition))
         else (s, previousWasSelected, toShow, bChangedPosition))"
| "key_step KEY_DOWN r (s, previousWasSelected, toShow, bChangedPosition) =
     (let i = row_id r; next = next_item s (Some i);
          s1 = (if (next \<noteq> None \<or> parent_of (m_rTree s) i \<noteq> None) \<or>
                   Some i \<noteq> m_pLastSelected s
                then s\<lparr>m_rTree := setSelected (m_rTree s) i previousWasSelected\<rparr>
                else s);
          s2 = (if previousWasSelected then s1\<lparr>m_pLastSelected := Some i\<rparr> else s1);
          toShow = (if previousWasSelected then Some i else toShow);
          previousWasSelected =
            (if previousWasSelected then False else Some i = m_pLastSelected s1);
          s3 = (if next_item s2 (Some i) = None \<and> Some i = m_pLastSelected s2
                then s2\<lparr>m_rTree := setSelected (m_rTree s2) i True\<rparr>
                else s2)
      in (s3, previousWasSelected, toShow, bChangedPosition))"
| "key_step KEY_RIGHT r (s, previousWasSelected, toShow, bChangedPosition) =
     (let i = row_id r; it = snd r
      in if Some i = m_pLastSelected s
         then
           (if m_expanded it
            then (case m_children it of
                    [] \<Rightarrow> (s, previousWasSelected, toShow, bChangedPosition)
                  | c # _ \<Rightarrow>
                      (s\<lparr>m_rTree := setSelected (setSelected (m_rTree s) i False) (m_id c) True,
                         m_pLastSelected := Some (m_id c)\<rparr>,
                       previousWasSelected, toShow, bChangedPosition))
            else (s\<lparr>m_rTree := setExpanded (m_rTree s) i True\<rparr>,
                  previousWasSelected, toShow, True))
         else (s, previousWasSelected, toShow, bChangedPosition))"
| "key_step KEY_LEFT r (s, previousWasSelected, toShow, bChangedPosition) =
     (let i = row_id r; it = snd r
      in if Some i = m_pLastSelected s
         then
           (if m_expanded it \<and> m_children it \<noteq> []
            then (s\<lparr>m_rTree := setExpanded (m_rTree s) i False\<rparr>,
                  previousWasSelected, toShow, True)
            else (case parent_of (m_rTree s) i of
                    None \<Rightarrow> (s, previousWasSelected, toShow, bChangedPosition)
                  | Some p \<Rightarrow>
                      (s\<lparr>m_rTree := setSelected (setSelected (m_rTree s) i False) p True,
                         m_pLastSelected := Some p\<rparr>,
                       previousWasSelected, toShow, bChangedPosition)))
         else (s, previousWasSelected, toShow, bChangedPosition))"
| "key_step KEY_ENTER r (s, previousWasSelected, toShow, bChangedPosition) =
     (s, previousWasSelected, toShow, bChangedPosition)"

text \<open>
  The loop. The body changes flags of the items and never the shape of the tree, and the
  successor of an item is taken after the body, in the tree as the body left it. In a tree
  with distinct identities the items that the loop meets are therefore the items of the
  document order that participate at the moment the loop comes to them (the body for an item
  changes the expansion of that item only, so it changes which of the later items
  participate and no other): \<open>key_loop\<close> goes through the document order, and at each
  identity it looks for the item in the traversal of the tree as it is then.
\<close>

fun key_loop :: "key \<Rightarrow> nat list \<Rightarrow> key_state \<Rightarrow> key_state" where
  "key_loop key [] st = st"
| "key_loop key (i # rest) st =
     (case find (\<lambda>r. row_id r = i) (traversal (fst st)) of
        None \<Rightarrow> key_loop key rest st
      | Some r \<Rightarrow> key_loop key rest (key_step key r st))"

definition key_arrow :: "ctrl \<Rightarrow> key \<Rightarrow> error + ctrl \<times> bool" where
  "key_arrow s key =
     (case key_loop key (map row_id (tree_rows (m_rTree s))) (s, False, None, False) of
        (s1, previousWasSelected, toShow, bChangedPosition) \<Rightarrow>
          (case toShow of
             None \<Rightarrow> Inr (makeImage s1, bChangedPosition)
           | Some i \<Rightarrow>
               (case ensureVisible s1 (Some i) of
                  Inl e \<Rightarrow> Inl e
                | Inr (scrolled, s2) \<Rightarrow> Inr (makeImage s2, bChangedPosition))))"

text \<open>
  The mouse. The row is \<^verbatim>\<open>( rEvtMouse.getYPos() - pos->getTop() ) / itemHeight()\<close> and the
  column \<^verbatim>\<open>rEvtMouse.getXPos() - pos->getLeft()\<close>; the position is dereferenced without
  a test.
\<close>

definition mouse_cell :: "ctrl \<Rightarrow> int \<Rightarrow> int \<Rightarrow> error + int \<times> int" where
  "mouse_cell s x y =
     (case getPosition s of
        None \<Rightarrow> Inl NullPosition
      | Some pos \<Rightarrow> Inr (x - getLeft pos, c_div (y - getTop pos) (itemHeight s)))"

text \<open>
  The loops of the shift click and of the ctrl+shift click over the traversal. Each item is
  visited once; the ctrl+shift loop reads the flag of the item before it writes it.
\<close>

fun shift_loop :: "tree \<Rightarrow> row list \<Rightarrow> iterator \<Rightarrow> nat option \<Rightarrow> bool \<Rightarrow> tree" where
  "shift_loop t [] itClicked pLast select = t"
| "shift_loop t (r # rs) itClicked pLast select =
     (let nextSelect = select;
          hit = (Some (row_id r) = itClicked \<or> Some (row_id r) = pLast);
          nextSelect = (if hit then (if select then False else True) else nextSelect);
          select = (if hit then True else select)
      in shift_loop (setSelected t (row_id r) select) rs itClicked pLast nextSelect)"

fun ctrl_shift_loop :: "tree \<Rightarrow> row list \<Rightarrow> iterator \<Rightarrow> nat option \<Rightarrow> bool \<Rightarrow> tree" where
  "ctrl_shift_loop t [] itClicked pLast select = t"
| "ctrl_shift_loop t (r # rs) itClicked pLast select =
     (let nextSelect = select;
          hit = (Some (row_id r) = itClicked \<or> Some (row_id r) = pLast);
          nextSelect = (if hit then (if select then False else True) else nextSelect);
          select = (if hit then True else select)
      in ctrl_shift_loop (setSelected t (row_id r) (m_selected (snd r) \<or> select)) rs
           itClicked pLast nextSelect)"

fun unselect_loop :: "tree \<Rightarrow> row list \<Rightarrow> tree" where
  "unselect_loop t [] = t"
| "unselect_loop t (r # rs) = unselect_loop (setSelected t (row_id r) False) rs"

definition toggleSelected :: "tree \<Rightarrow> nat \<Rightarrow> tree" where
  "toggleSelected t i = map (update_item i (\<lambda>x. set_selected (\<not> m_selected x) x)) t"

definition toggleExpanded :: "tree \<Rightarrow> nat \<Rightarrow> tree" where
  "toggleExpanded t i = map (update_item i (\<lambda>x. set_expanded (\<not> m_expanded x) x)) t"

definition mouse_ctrl_shift :: "ctrl \<Rightarrow> int \<Rightarrow> ctrl" where
  "mouse_ctrl_shift s yPos =
     (let itClicked = findItemAtPos s yPos
      in makeImage
           (s\<lparr>m_rTree := ctrl_shift_loop (m_rTree s) (traversal s) itClicked
                           (m_pLastSelected s) False\<rparr>))"

definition mouse_ctrl :: "ctrl \<Rightarrow> int \<Rightarrow> ctrl" where
  "mouse_ctrl s yPos =
     (case findItemAtPos s yPos of
        None \<Rightarrow> makeImage s
      | Some i \<Rightarrow>
          makeImage (s\<lparr>m_rTree := toggleSelected (m_rTree s) i, m_pLastSelected := Some i\<rparr>))"

definition mouse_shift :: "ctrl \<Rightarrow> int \<Rightarrow> ctrl" where
  "mouse_shift s yPos =
     (let itClicked = findItemAtPos s yPos
      in makeImage
           (s\<lparr>m_rTree := shift_loop (m_rTree s) (traversal s) itClicked
                           (m_pLastSelected s) False\<rparr>))"

text \<open>
  The plain click. \<open>on_icon\<close> is the test of the source for a click on the icon of a node:
  \<^verbatim>\<open>( it->size() && xPos > (it->depth() - 1) * itemImageWidth()
  && xPos < it->depth() * itemImageWidth() ) && !m_flat\<close>.
\<close>

definition on_icon :: "ctrl \<Rightarrow> row \<Rightarrow> int \<Rightarrow> bool" where
  "on_icon s r xPos =
     ((m_children (snd r) \<noteq> [] \<and> xPos > (row_depth r - 1) * itemImageWidth s
       \<and> xPos < row_depth r * itemImageWidth s)
      \<and> \<not> m_flat s)"

definition mouse_plain :: "ctrl \<Rightarrow> int \<Rightarrow> int \<Rightarrow> error + ctrl \<times> bool" where
  "mouse_plain s xPos yPos =
     (case findItemAtPos s yPos of
        None \<Rightarrow> Inr (makeImage s, False)
      | Some i \<Rightarrow>
          (case deref (m_rTree s) (Some i) of
             None \<Rightarrow> Inl InvalidIterator
           | Some r \<Rightarrow>
               if on_icon s r xPos
               then Inr (makeImage (s\<lparr>m_rTree := toggleExpanded (m_rTree s) i\<rparr>), True)
               else Inr (makeImage
                           (s\<lparr>m_rTree := setSelected (unselect_loop (m_rTree s) (traversal s)) i True,
                              m_pLastSelected := Some i\<rparr>), False)))"

text \<open>
  The scroll wheel: \<^verbatim>\<open>double percentage = m_rTree.getPositionVar().get()\<close>,
  \<^verbatim>\<open>double step = 2.0 / (double)count\<close>, and the sum or the difference is written to the
  position variable.
\<close>

definition scroll :: "ctrl \<Rightarrow> direction \<Rightarrow> error + ctrl" where
  "scroll s direction =
     (let percentage = m_positionVar s;
          step = fp_div 53 (Finite 2) (d_of_int (item_count s));
          percentage = (if direction = kUp then fp_add 53 percentage step
                        else fp_sub 53 percentage step)
      in set_position s percentage)"

text \<open>
  The end of \<^verbatim>\<open>handleEvent\<close>, under \<^verbatim>\<open>if( bChangedPosition )\<close>: the index of
  \<^verbatim>\<open>m_firstPos\<close> in the traversal (the number of items, when it is not there) gives the
  new value of the position variable, written between \<^verbatim>\<open>m_dontMove = true\<close> and
  \<^verbatim>\<open>m_dontMove = false\<close>. The quotient \<^verbatim>\<open>(float)iFirst / (float)indexMax\<close> is a quotient
  of floats, the difference \<^verbatim>\<open>1.0 - f_new\<close> a difference of doubles.
\<close>

fun index_of :: "row list \<Rightarrow> iterator \<Rightarrow> int" where
  "index_of [] it = 0"
| "index_of (r # rs) it = (if Some (row_id r) = it then 0 else 1 + index_of rs it)"

definition fix_position :: "ctrl \<Rightarrow> error + ctrl" where
  "fix_position s =
     (let iFirst = index_of (traversal s) (m_firstPos s);
          indexMax = item_count s - 1;
          f_new = fp_div 24 (f_of_int iFirst) (f_of_int indexMax);
          s1 = s\<lparr>m_dontMove := True\<rparr>
      in case set_position s1 (fp_sub 53 (Finite 1) f_new) of
           Inl e \<Rightarrow> Inl e
         | Inr s2 \<Rightarrow> Inr (s2\<lparr>m_dontMove := False\<rparr>))"

fun event_branch :: "ctrl \<Rightarrow> event \<Rightarrow> error + ctrl \<times> bool" where
  "event_branch s KeyDelete =
     (case key_delete s of Inl e \<Rightarrow> Inl e | Inr s' \<Rightarrow> Inr (s', False))"
| "event_branch s KeyPageDown =
     (case key_pagedown s of Inl e \<Rightarrow> Inl e | Inr s' \<Rightarrow> Inr (s', False))"
| "event_branch s KeyPageUp =
     (case key_pageup s of Inl e \<Rightarrow> Inl e | Inr s' \<Rightarrow> Inr (s', False))"
| "event_branch s KeyUp = key_arrow s KEY_UP"
| "event_branch s KeyDown = key_arrow s KEY_DOWN"
| "event_branch s KeyLeft = key_arrow s KEY_LEFT"
| "event_branch s KeyRight = key_arrow s KEY_RIGHT"
| "event_branch s KeyEnter = key_arrow s KEY_ENTER"
| "event_branch s KeyOther = Inr (s, False)"
| "event_branch s (MouseLeftDownCtrlShift x y) =
     (case mouse_cell s x y of
        Inl e \<Rightarrow> Inl e
      | Inr (xPos, yPos) \<Rightarrow> Inr (mouse_ctrl_shift s yPos, False))"
| "event_branch s (MouseLeftDownCtrl x y) =
     (case mouse_cell s x y of
        Inl e \<Rightarrow> Inl e
      | Inr (xPos, yPos) \<Rightarrow> Inr (mouse_ctrl s yPos, False))"
| "event_branch s (MouseLeftDownShift x y) =
     (case mouse_cell s x y of
        Inl e \<Rightarrow> Inl e
      | Inr (xPos, yPos) \<Rightarrow> Inr (mouse_shift s yPos, False))"
| "event_branch s (MouseLeftDown x y) =
     (case mouse_cell s x y of
        Inl e \<Rightarrow> Inl e
      | Inr (xPos, yPos) \<Rightarrow> mouse_plain s xPos yPos)"
| "event_branch s (MouseLeftDblClick x y) =
     (case mouse_cell s x y of
        Inl e \<Rightarrow> Inl e
      | Inr (xPos, yPos) \<Rightarrow> Inr (makeImage s, False))"
| "event_branch s (MouseLeftOther x y) =
     (case mouse_cell s x y of
        Inl e \<Rightarrow> Inl e
      | Inr (xPos, yPos) \<Rightarrow> Inr (s, False))"
| "event_branch s OtherEvent = Inr (s, False)"
| "event_branch s (Scroll direction) =
     (case scroll s direction of Inl e \<Rightarrow> Inl e | Inr s' \<Rightarrow> Inr (s', False))"

definition handleEvent :: "ctrl \<Rightarrow> event \<Rightarrow> error + ctrl" where
  "handleEvent s e =
     (case event_branch s e of
        Inl err \<Rightarrow> Inl err
      | Inr (s', bChangedPosition) \<Rightarrow>
          if bChangedPosition then fix_position s' else Inr s')"

subsection \<open>Example controls\<close>

text \<open>
  A leaf, a font of 9 pixels that draws every label, and a control of 100 pixels by
  \<open>h\<close> pixels whose items are 10 pixels high, with the first item of the tree at the top.
  The position variable stores a \<^verbatim>\<open>float\<close>.
\<close>

definition track :: "nat \<Rightarrow> item" where
  "track i = Item i (Some ''track'') False False False False []"

definition plain_font :: font where
  "plain_font =
     \<lparr>getSize = 9,
      drawString = (\<lambda>str c w. Some \<lparr>bmp_name = str, bmp_width = 10, bmp_height = 9\<rparr>)\<rparr>"

definition example_ctrl :: "tree \<Rightarrow> bool \<Rightarrow> int \<Rightarrow> ctrl" where
  "example_ctrl t flat h =
     \<lparr>m_rTree = t, m_positionVar = Finite 1, m_positionBits = 24,
      getPosition = Some \<lparr>getLeft = 0, getTop = 0, getWidth = 100, getHeight = h\<rparr>,
      m_rFont = plain_font, m_pBgBitmap = None, m_pItemBitmap = None, m_pOpenBitmap = None,
      m_pClosedBitmap = None, m_fgColor = 1, m_playColor = 2, m_bgColor1 = 3, m_bgColor2 = 4,
      m_selColor = 5, m_flat = flat,
      m_firstPos = (case t of [] \<Rightarrow> None | x # _ \<Rightarrow> Some (m_id x)),
      m_pLastSelected = None, m_pImage = NullImage, m_dontMove = False,
      m_pScaledBitmap = None\<rparr>"

text \<open>Flat mode, ten leaves, four rows, the position variable at the bottom.\<close>

definition flat10_bottom :: ctrl where
  "flat10_bottom = (example_ctrl (map track [1..<11]) True 40)\<lparr>m_positionVar := Finite 0\<rparr>"

text \<open>The same with the position variable at the top and the fifth leaf at the top.\<close>

definition flat10_middle :: ctrl where
  "flat10_middle = (example_ctrl (map track [1..<11]) True 40)\<lparr>m_firstPos := Some 5\<rparr>"

text \<open>Leaves with a label of their own, selected or deleted as told.\<close>

definition named :: "nat \<Rightarrow> string \<Rightarrow> bool \<Rightarrow> bool \<Rightarrow> item" where
  "named i l sel del = Item i (Some l) sel False del False []"

definition anchor_deleted :: "ctrl \<Rightarrow> bool" where
  "anchor_deleted s =
     (case deref (m_rTree s) (m_firstPos s) of None \<Rightarrow> False | Some r \<Rightarrow> m_deleted (snd r))"

text \<open>
  Two items, the first one deleted and at the top of the control.
\<close>

definition deleted_first :: ctrl where
  "deleted_first =
     example_ctrl [named 1 ''a'' False True, named 2 ''b'' False False] False 40"

text \<open>
  Two items, the first one selected by a click (so it is the last selected item too).
\<close>

definition selected_first :: ctrl where
  "selected_first =
     (example_ctrl [named 1 ''a'' True False, named 2 ''b'' False False] False 40)
       \<lparr>m_pLastSelected := Some 1\<rparr>"

text \<open>Two items, the second one selected by a click.\<close>

definition selected_second :: ctrl where
  "selected_second =
     (example_ctrl [named 1 ''a'' False False, named 2 ''b'' True False] False 40)
       \<lparr>m_pLastSelected := Some 2\<rparr>"

text \<open>Three items, the one in the middle deleted.\<close>

definition deleted_middle :: ctrl where
  "deleted_middle =
     example_ctrl
       [named 1 ''a'' False False, named 2 ''b'' False True, named 3 ''c'' False False]
       False 40"

text \<open>Three items, the first one selected by a click.\<close>

definition three_items :: ctrl where
  "three_items =
     (example_ctrl
        [named 1 ''a'' True False, named 2 ''b'' False False, named 3 ''c'' False False]
        False 40)\<lparr>m_pLastSelected := Some 1\<rparr>"

text \<open>
  A control that holds an image and has no position; a font that cannot draw the label
  \<open>b\<close>, and a control of three items with that font that holds an image, once with the
  first item and once with the second item at the top.
\<close>

definition old_image :: graphics where
  "old_image = \<lparr>gfx_width = 100, gfx_height = 40, gfx_ops = [FillRect 0 0 100 40 3]\<rparr>"

definition unplaced :: ctrl where
  "unplaced =
     (example_ctrl [named 1 ''a'' False False] False 40)
       \<lparr>getPosition := None, m_pImage := Image old_image\<rparr>"




text \<open>The control of three items after a plain click on the third row.\<close>

definition plain_clicked :: ctrl where
  "plain_clicked =
     makeImage
       (three_items
          \<lparr>m_rTree := setSelected (unselect_loop (m_rTree three_items) (traversal three_items)) 3 True,
           m_pLastSelected := Some 3\<rparr>)"

text \<open>Flat mode, twenty leaves, four rows, the first leaf at the top.\<close>

definition flat20 :: ctrl where
  "flat20 = example_ctrl (map track [1..<21]) True 40"

text \<open>
  Hierarchical mode: a leaf, a closed node with three children and another leaf; the node
  is at the top of the control. \<open>album_open\<close> is the control after a click on the icon of
  the node, before the position variable is fixed.
\<close>

definition album :: ctrl where
  "album =
     (example_ctrl
        [track 1, Item 2 (Some ''album'') False False False False [track 3, track 4, track 5],
         track 6]
        False 40)\<lparr>m_firstPos := Some 2\<rparr>"

definition album_open :: ctrl where
  "album_open = makeImage (album\<lparr>m_rTree := toggleExpanded (m_rTree album) 2\<rparr>)"

text \<open>
  Flat mode, ten leaves, four rows, the first leaf at the top; and the tree with the closed
  node in flat mode, its first leaf at the top.
\<close>

definition flat10_top :: ctrl where
  "flat10_top = example_ctrl (map track [1..<11]) True 40"

definition album_flat :: ctrl where
  "album_flat = album\<lparr>m_flat := True, m_firstPos := Some 1\<rparr>"

text \<open>
  Flat mode, five leaves, four rows, the second leaf at the top and the position variable
  at one half; thirteen leaves, four rows, the fourth leaf at the top.
\<close>

definition flat5_half :: ctrl where
  "flat5_half =
     (example_ctrl (map track [1..<6]) True 40)
       \<lparr>m_positionVar := Finite (1 / 2), m_firstPos := Some 2\<rparr>"

definition flat13 :: ctrl where
  "flat13 = (example_ctrl (map track [1..<14]) True 40)\<lparr>m_firstPos := Some 4\<rparr>"

text \<open>
  The tree with the closed node in flat mode, the node at the top (the state after
  \<^verbatim>\<open>m_firstPos = m_rTree.begin()\<close> in a tree that starts with a node); the tree with the
  closed node, the node selected; a tree of one item; the empty tree.
\<close>

definition node_flat :: ctrl where
  "node_flat = album_flat\<lparr>m_firstPos := Some 2\<rparr>"

definition album_selected :: ctrl where
  "album_selected =
     album\<lparr>m_rTree := setSelected (m_rTree album) 2 True, m_pLastSelected := Some 2\<rparr>"

definition single :: ctrl where
  "single = example_ctrl [track 1] False 40"

definition empty_tree :: ctrl where
  "empty_tree = example_ctrl [] True 40"

section \<open>Properties\<close>

subsection \<open>Rounding\<close>

text \<open>
  \<open>ilog2\<close> is the binary exponent; \<open>round_half_even\<close> is exact on integers, errs by a half
  at most and gives an even integer at a tie; \<open>fp_round\<close> keeps the unit interval and its
  relative error is at most \<open>2\<close> to the power of \<open>- p\<close>.
\<close>

lemma pow2_powi: "pow2 e = 2 powi e"
  by (simp add: pow2_def power_int_def inverse_eq_divide power_one_over)

lemma pow2_pos [simp]: "0 < pow2 e"
  by (simp add: pow2_def)

lemma pow2_nonzero [simp]: "pow2 e \<noteq> 0"
  by (simp add: pow2_def)

lemma pow2_add: "pow2 (a + b) = pow2 a * pow2 b"
  by (simp add: pow2_powi power_int_add)

lemma pow2_diff: "pow2 (a - b) = pow2 a / pow2 b"
  by (simp add: pow2_powi power_int_diff)

lemma pow2_nat: "0 \<le> e \<Longrightarrow> pow2 e = of_int (2 ^ nat e)"
  by (simp add: pow2_def)

lemma pow2_mono: "a \<le> b \<Longrightarrow> pow2 a \<le> pow2 b"
  by (simp add: pow2_powi power_int_increasing)

lemma pow2_le_one_iff: "pow2 e \<le> 1 \<longleftrightarrow> e \<le> 0"
proof
  assume "pow2 e \<le> 1"
  show "e \<le> 0"
  proof (rule ccontr)
    assume "\<not> e \<le> 0"
    then have "1 \<le> e" by simp
    from pow2_mono[OF this] have "2 \<le> pow2 e" by (simp add: pow2_def)
    with \<open>pow2 e \<le> 1\<close> show False by simp
  qed
next
  assume "e \<le> 0"
  from pow2_mono[OF this] show "pow2 e \<le> 1" by (simp add: pow2_def)
qed

lemma ilog2_bounds:
  assumes x: "0 < x"
  shows "pow2 (ilog2 x) \<le> x" and "x < pow2 (ilog2 x + 1)"
proof -
  obtain a b where q: "quotient_of x = (a, b)" by (cases "quotient_of x")
  then have b: "0 < b" and xd: "x = of_int a / of_int b"
    by (simp_all add: quotient_of_denom_pos quotient_of_div)
  with x have a: "0 < a" by (simp add: zero_less_divide_iff)
  define e where "e = bitlen a - bitlen b"
  from bitlen_bounds[OF a] have a1: "(2 :: int) ^ nat (bitlen a - 1) \<le> a"
    and a2: "a < 2 ^ nat (bitlen a)" by simp_all
  from bitlen_bounds[OF b] have b1: "(2 :: int) ^ nat (bitlen b - 1) \<le> b"
    and b2: "b < 2 ^ nat (bitlen b)" by simp_all
  have la: "1 \<le> bitlen a" "1 \<le> bitlen b"
    using a b by (simp_all add: bitlen_alt_def)
  have ra1: "pow2 (bitlen a - 1) \<le> of_int a"
    using a1 la by (simp add: pow2_def)
  have ra2: "of_int a < pow2 (bitlen a)"
    using a2 la by (simp add: pow2_def)
  have rb1: "pow2 (bitlen b - 1) \<le> of_int b"
    using b1 la by (simp add: pow2_def)
  have rb2: "of_int b < pow2 (bitlen b)"
    using b2 la by (simp add: pow2_def)
  have bpos: "(0 :: rat) < of_int b" using b by simp
  have lo: "pow2 (e - 1) < x"
  proof -
    have "pow2 (e - 1) = pow2 (bitlen a - 1) / pow2 (bitlen b)"
      by (simp add: e_def pow2_diff[symmetric] algebra_simps)
    also have "\<dots> \<le> of_int a / pow2 (bitlen b)"
      by (rule divide_right_mono[OF ra1]) (simp add: less_imp_le)
    also have "\<dots> < of_int a / of_int b"
      using a bpos by (intro divide_strict_left_mono[OF rb2]) simp_all
    finally show ?thesis by (simp add: xd)
  qed
  have hi: "x < pow2 (e + 1)"
  proof -
    have "x = of_int a / of_int b" by (rule xd)
    also have "\<dots> < pow2 (bitlen a) / of_int b"
      by (rule divide_strict_right_mono[OF ra2 bpos])
    also have "\<dots> \<le> pow2 (bitlen a) / pow2 (bitlen b - 1)"
      using bpos by (intro divide_left_mono[OF rb1]) (simp_all add: less_imp_le)
    also have "\<dots> = pow2 (e + 1)"
      by (simp add: e_def pow2_diff[symmetric] algebra_simps)
    finally show ?thesis .
  qed
  have il: "ilog2 x = (if pow2 e \<le> x then e else e - 1)"
    by (simp add: ilog2_def q e_def Let_def)
  show "pow2 (ilog2 x) \<le> x"
    using lo by (simp add: il)
  show "x < pow2 (ilog2 x + 1)"
    using hi by (simp add: il)
qed

lemma round_half_even_of_int [simp]: "round_half_even (of_int n) = n"
  by (simp add: round_half_even_def)

lemma round_half_even_simps [simp]:
  "round_half_even 0 = 0" "round_half_even 1 = 1" "round_half_even (numeral k) = numeral k"
  using round_half_even_of_int[of 0] round_half_even_of_int[of 1]
    round_half_even_of_int[of "numeral k"]
  by simp_all

lemma round_half_even_error: "\<bar>of_int (round_half_even x) - x\<bar> \<le> 1 / 2"
proof -
  have "of_int \<lfloor>x\<rfloor> \<le> x" "x < of_int \<lfloor>x\<rfloor> + 1" by linarith+
  then show ?thesis
    by (auto simp: round_half_even_def Let_def)
qed

lemma round_half_even_tie:
  "x - of_int \<lfloor>x\<rfloor> = 1 / 2 \<Longrightarrow> even (round_half_even x)"
  by (simp add: round_half_even_def Let_def)

lemma round_half_even_nonneg: "0 \<le> x \<Longrightarrow> 0 \<le> round_half_even x"
  by (auto simp: round_half_even_def Let_def)

lemma round_half_even_le: "x \<le> of_int n \<Longrightarrow> round_half_even x \<le> n"
proof -
  assume h: "x \<le> of_int n"
  then have f: "\<lfloor>x\<rfloor> \<le> n" by (simp add: floor_le_iff)
  show ?thesis
  proof (cases "\<lfloor>x\<rfloor> = n")
    case True
    with h have "x = of_int n" by linarith
    then show ?thesis by simp
  next
    case False
    with f have "\<lfloor>x\<rfloor> + 1 \<le> n" by simp
    then show ?thesis by (auto simp: round_half_even_def Let_def)
  qed
qed

lemma fp_round_zero [simp]: "fp_round p 0 = 0"
  by (simp add: fp_round_def)

lemma fp_round_unit:
  assumes "0 \<le> x" "x \<le> 1" "0 < p"
  shows "0 \<le> fp_round p x" and "fp_round p x \<le> 1"
proof -
  show "0 \<le> fp_round p x"
    using assms(1)
    by (auto simp: fp_round_def Let_def sgn_if intro!: mult_nonneg_nonneg round_half_even_nonneg
        divide_nonneg_pos less_imp_le[OF pow2_pos])
  show "fp_round p x \<le> 1"
  proof (cases "x = 0")
    case True
    then show ?thesis by simp
  next
    case False
    with assms have x: "0 < x" by simp
    define e where "e = ilog2 x - (int p - 1)"
    from ilog2_bounds(1)[OF x] assms(2) have "pow2 (ilog2 x) \<le> 1" by simp
    then have "ilog2 x \<le> 0" by (simp add: pow2_le_one_iff)
    with assms(3) have e: "e \<le> 0" by (simp add: e_def)
    then have n: "pow2 (- e) = of_int (2 ^ nat (- e))" by (simp add: pow2_nat)
    have inv: "1 / pow2 e = pow2 (- e)"
      using pow2_diff[of 0 e] by (simp add: pow2_def)
    have "x / pow2 e \<le> 1 / pow2 e"
      using assms(2) by (intro divide_right_mono) (simp_all add: less_imp_le)
    then have "x / pow2 e \<le> of_int (2 ^ nat (- e))" by (simp add: inv n)
    from round_half_even_le[OF this]
    have "of_int (round_half_even (x / pow2 e)) \<le> (of_int (2 ^ nat (- e)) :: rat)"
      by (simp only: of_int_le_iff)
    then have "of_int (round_half_even (x / pow2 e)) * pow2 e \<le> pow2 (- e) * pow2 e"
      by (simp add: n mult_right_mono)
    also have "\<dots> = 1" by (simp add: pow2_add[symmetric] pow2_def)
    finally show ?thesis
      using x by (simp add: fp_round_def Let_def e_def)
  qed
qed

lemma fp_round_error:
  assumes "0 < p"
  shows "\<bar>fp_round p x - x\<bar> \<le> \<bar>x\<bar> / 2 ^ p"
proof (cases "x = 0")
  case True
  then show ?thesis by simp
next
  case False
  then have ax: "0 < \<bar>x\<bar>" by simp
  define e where "e = ilog2 \<bar>x\<bar> - (int p - 1)"
  define y where "y = \<bar>x\<bar> / pow2 e"
  have xy: "\<bar>x\<bar> = y * pow2 e" by (simp add: y_def)
  have "fp_round p x = sgn x * (of_int (round_half_even y) * pow2 e)"
    using False by (simp add: fp_round_def Let_def e_def y_def)
  moreover have "x = sgn x * (y * pow2 e)"
    using xy False by (cases "0 < x") (simp_all add: sgn_if abs_if)
  ultimately have "fp_round p x - x =
      sgn x * ((of_int (round_half_even y) - y) * pow2 e)"
    by (simp add: algebra_simps)
  then have "\<bar>fp_round p x - x\<bar> = \<bar>of_int (round_half_even y) - y\<bar> * pow2 e"
    using False by (simp add: abs_mult abs_of_pos)
  also have "\<dots> \<le> 1 / 2 * pow2 e"
    using round_half_even_error[of y] by (simp add: mult_right_mono)
  also have "\<dots> = pow2 (ilog2 \<bar>x\<bar>) / 2 ^ p"
  proof -
    have "pow2 (int p - 1) = 2 ^ p / 2"
      using assms by (simp add: pow2_def nat_diff_distrib' power_eq_if)
    moreover have "pow2 e = pow2 (ilog2 \<bar>x\<bar>) / pow2 (int p - 1)"
      by (simp only: e_def pow2_diff)
    ultimately have "pow2 e = pow2 (ilog2 \<bar>x\<bar>) / (2 ^ p / 2)"
      by (simp only:)
    then show ?thesis by simp
  qed
  also have "\<dots> \<le> \<bar>x\<bar> / 2 ^ p"
    using ilog2_bounds(1)[OF ax] by (simp add: divide_right_mono)
  finally show ?thesis .
qed

lemma fp_round_one [simp]: "0 < p \<Longrightarrow> fp_round p 1 = 1"
proof -
  assume p: "0 < p"
  have q: "quotient_of 1 = (1, 1)" by (rule rat_one_code)
  have il: "ilog2 1 = 0" by (simp add: ilog2_def q Let_def pow2_def)
  have e: "pow2 (1 - int p) = 1 / 2 ^ (p - 1)"
    using p by (simp add: pow2_def nat_diff_distrib' Suc_leI)
  have "(1 :: rat) / pow2 (1 - int p) = of_int (2 ^ (p - 1))" by (simp add: e)
  then have "round_half_even (1 / pow2 (1 - int p)) = 2 ^ (p - 1)"
    by (simp only: round_half_even_of_int)
  then show ?thesis by (simp add: fp_round_def Let_def il e)
qed

subsection \<open>What makeImage and the position variable leave alone\<close>

lemma makeImage_frame [simp]:
  "m_rTree (makeImage s) = m_rTree s"
  "m_positionVar (makeImage s) = m_positionVar s"
  "m_positionBits (makeImage s) = m_positionBits s"
  "getPosition (makeImage s) = getPosition s"
  "m_flat (makeImage s) = m_flat s"
  "m_firstPos (makeImage s) = m_firstPos s"
  "m_pLastSelected (makeImage s) = m_pLastSelected s"
  "m_dontMove (makeImage s) = m_dontMove s"
  "m_rFont (makeImage s) = m_rFont s"
  "m_pItemBitmap (makeImage s) = m_pItemBitmap s"
  "m_pOpenBitmap (makeImage s) = m_pOpenBitmap s"
  "m_pClosedBitmap (makeImage s) = m_pClosedBitmap s"
  by (simp_all add: makeImage_def Let_def split: option.splits)

lemma traversal_cong:
  "m_flat s = m_flat s' \<Longrightarrow> m_rTree s = m_rTree s' \<Longrightarrow> traversal s = traversal s'"
  by (simp add: traversal_def)

lemma maxItems_cong:
  "getPosition s = getPosition s' \<Longrightarrow> m_rFont s = m_rFont s' \<Longrightarrow> m_flat s = m_flat s' \<Longrightarrow>
   m_pItemBitmap s = m_pItemBitmap s' \<Longrightarrow> m_pOpenBitmap s = m_pOpenBitmap s' \<Longrightarrow>
   m_pClosedBitmap s = m_pClosedBitmap s' \<Longrightarrow> maxItems s = maxItems s'"
  by (simp add: maxItems_def itemHeight_def Let_def cong: option.case_cong)

lemma traversal_simps [simp]:
  "traversal (makeImage s) = traversal s"
  "traversal (s\<lparr>m_positionVar := v\<rparr>) = traversal s"
  "traversal (s\<lparr>m_firstPos := it\<rparr>) = traversal s"
  "traversal (s\<lparr>m_dontMove := b\<rparr>) = traversal s"
  by (rule traversal_cong; simp)+

lemma maxItems_simps [simp]:
  "maxItems (makeImage s) = maxItems s"
  "maxItems (s\<lparr>m_positionVar := v\<rparr>) = maxItems s"
  "maxItems (s\<lparr>m_firstPos := it\<rparr>) = maxItems s"
  "maxItems (s\<lparr>m_dontMove := b\<rparr>) = maxItems s"
  "maxItems (s\<lparr>m_rTree := t\<rparr>) = maxItems s"
  by (rule maxItems_cong; simp)+

lemma position_anchor_cong:
  "traversal s = traversal s' \<Longrightarrow> maxItems s = maxItems s' \<Longrightarrow>
   m_positionVar s = m_positionVar s' \<Longrightarrow> position_anchor s = position_anchor s'"
  by (simp add: position_anchor_def item_count_def traversal_start_def cong: option.case_cong)

lemma position_anchor_simps [simp]:
  "position_anchor (makeImage s) = position_anchor s"
  "position_anchor (s\<lparr>m_firstPos := it\<rparr>) = position_anchor s"
  "position_anchor (s\<lparr>m_dontMove := b\<rparr>) = position_anchor s"
  by (rule position_anchor_cong; simp)+

lemma onUpdate_percent_guarded: "m_dontMove s \<Longrightarrow> onUpdate_percent s = Inr s"
  by (simp add: onUpdate_percent_def)

lemma onUpdate_percent_cases:
  "onUpdate_percent s = Inr s' \<Longrightarrow> s' = s \<or> (\<exists>it. s' = makeImage (s\<lparr>m_firstPos := it\<rparr>))"
  by (auto simp: onUpdate_percent_def split: if_splits sum.splits)

lemma onUpdate_percent_resolves:
  "\<not> m_dontMove s \<Longrightarrow> onUpdate_percent s = Inr s' \<Longrightarrow>
   position_anchor s = Inr (m_firstPos s') \<and> position_anchor s' = Inr (m_firstPos s')"
  by (auto simp: onUpdate_percent_def split: if_splits sum.splits)

lemma fp_neq_same: "\<not> fp_neq x y \<Longrightarrow> x = y"
  by (simp add: fp_neq_def)

lemma set_position_guarded:
  "m_dontMove s \<Longrightarrow>
   set_position s v = Inr (s\<lparr>m_positionVar := clamp_percentage (m_positionBits s) v\<rparr>)"
proof -
  assume g: "m_dontMove s"
  show ?thesis
  proof (cases "fp_neq (m_positionVar s) (clamp_percentage (m_positionBits s) v)")
    case True
    with g show ?thesis by (simp add: set_position_def Let_def onUpdate_percent_guarded)
  next
    case False
    from fp_neq_same[OF False] have "s\<lparr>m_positionVar := clamp_percentage (m_positionBits s) v\<rparr> = s"
      by simp
    with False show ?thesis by (simp add: set_position_def Let_def)
  qed
qed

lemma set_position_cases:
  assumes "set_position s v = Inr s'"
  shows "s' = s\<lparr>m_positionVar := clamp_percentage (m_positionBits s) v\<rparr> \<or>
     (\<exists>it. s' = makeImage (s\<lparr>m_positionVar := clamp_percentage (m_positionBits s) v,
                              m_firstPos := it\<rparr>))"
proof (cases "fp_neq (m_positionVar s) (clamp_percentage (m_positionBits s) v)")
  case True
  with assms have "onUpdate_percent (s\<lparr>m_positionVar := clamp_percentage (m_positionBits s) v\<rparr>) = Inr s'"
    by (simp add: set_position_def Let_def)
  from onUpdate_percent_cases[OF this] show ?thesis by auto
next
  case False
  from fp_neq_same[OF False] have "s\<lparr>m_positionVar := clamp_percentage (m_positionBits s) v\<rparr> = s"
    by simp
  with False assms show ?thesis by (simp add: set_position_def Let_def)
qed

lemma set_position_frame:
  assumes "set_position s v = Inr s'"
  shows "m_rTree s' = m_rTree s" "getPosition s' = getPosition s" "m_flat s' = m_flat s"
    "m_pLastSelected s' = m_pLastSelected s" "m_dontMove s' = m_dontMove s"
    "m_positionBits s' = m_positionBits s" "traversal s' = traversal s"
    "maxItems s' = maxItems s"
    "m_positionVar s' = clamp_percentage (m_positionBits s) v"
  using set_position_cases[OF assms] by auto

lemma set_position_resolves:
  assumes g: "\<not> m_dontMove s" and h: "set_position s v = Inr s'"
    and ne: "fp_neq (m_positionVar s) (m_positionVar s')"
  shows "position_anchor s' = Inr (m_firstPos s')"
proof -
  have v: "m_positionVar s' = clamp_percentage (m_positionBits s) v"
    by (rule set_position_frame(9)[OF h])
  with ne have "fp_neq (m_positionVar s) (clamp_percentage (m_positionBits s) v)" by simp
  with h have u: "onUpdate_percent (s\<lparr>m_positionVar := clamp_percentage (m_positionBits s) v\<rparr>) = Inr s'"
    by (simp add: set_position_def Let_def)
  from g have "\<not> m_dontMove (s\<lparr>m_positionVar := clamp_percentage (m_positionBits s) v\<rparr>)" by simp
  from onUpdate_percent_resolves[OF this u] show ?thesis by simp
qed

lemma fix_position_guarded:
  "fix_position s =
     Inr (s\<lparr>m_positionVar :=
              clamp_percentage (m_positionBits s)
                (fp_sub 53 (Finite 1)
                   (fp_div 24 (f_of_int (index_of (traversal s) (m_firstPos s)))
                      (f_of_int (item_count s - 1)))),
            m_dontMove := False\<rparr>)"
  by (simp add: fix_position_def Let_def set_position_guarded)

lemma fix_position_last_selected:
  "fix_position s = Inr s' \<Longrightarrow> m_pLastSelected s' = m_pLastSelected s"
  by (simp add: fix_position_guarded) auto

lemma position_anchor_finite:
  "m_positionVar s = Finite v \<Longrightarrow>
   position_anchor s =
     Inr (if 0 < item_count s - maxItems s
          then item_at_rank (traversal s)
                 (round_half_even
                    (fp_round 53 (fp_round 53 (1 - v) * of_int (item_count s - maxItems s))) + 1)
          else traversal_start s)"
  by (simp add: position_anchor_def Let_def fp_sub_def lrint_def d_of_int_def)

lemma position_anchor_not_finite:
  "m_positionVar s = NaN \<or> m_positionVar s = PlusInf \<or> m_positionVar s = MinusInf \<Longrightarrow>
   0 < item_count s - maxItems s \<Longrightarrow> position_anchor s = Inl LrintUnspecified"
  by (auto simp: position_anchor_def Let_def fp_sub_def lrint_def d_of_int_def inf_of_sign_def)

lemma clamp_percentage_unit:
  "0 \<le> x \<Longrightarrow> x \<le> 1 \<Longrightarrow> 0 < p \<Longrightarrow> clamp_percentage p (Finite x) = Finite (fp_round p x)"
  using fp_round_unit[of x p] by (simp add: clamp_percentage_def fp_cast_def Let_def)

lemma set_position_finite:
  assumes "clamp_percentage (m_positionBits s) v = Finite y"
  shows "map_sum id m_positionVar (set_position s v) = Inr (Finite y)"
proof (cases "fp_neq (m_positionVar s) (Finite y)")
  case False
  from fp_neq_same[OF False] False assms show ?thesis
    by (simp add: set_position_def Let_def)
next
  case True
  define s2 where "s2 = s\<lparr>m_positionVar := Finite y\<rparr>"
  have "m_positionVar s2 = Finite y" by (simp add: s2_def)
  from position_anchor_finite[OF this] obtain it where "position_anchor s2 = Inr it"
    by blast
  then have "map_sum id m_positionVar (onUpdate_percent s2) = Inr (Finite y)"
    by (simp add: onUpdate_percent_def s2_def)
  with True assms show ?thesis
    by (simp add: set_position_def Let_def s2_def)
qed

subsection \<open>The anchor follows the position variable\<close>

lemma double_product_error:
  "\<bar>fp_round 53 (fp_round 53 a * b) - a * b\<bar> \<le> \<bar>a * b\<bar> / 2 ^ 51"
proof -
  define d where "d = fp_round 53 a"
  have e1: "\<bar>d - a\<bar> \<le> \<bar>a\<bar> / 2 ^ 53"
    unfolding d_def by (rule fp_round_error) simp
  have e2: "\<bar>fp_round 53 (d * b) - d * b\<bar> \<le> \<bar>d * b\<bar> / 2 ^ 53"
    by (rule fp_round_error) simp
  have "\<bar>d * b - a * b\<bar> = \<bar>d - a\<bar> * \<bar>b\<bar>"
    by (simp add: left_diff_distrib[symmetric] abs_mult)
  also have "\<dots> \<le> \<bar>a\<bar> / 2 ^ 53 * \<bar>b\<bar>"
    by (rule mult_right_mono[OF e1]) simp
  finally have e3: "\<bar>d * b - a * b\<bar> \<le> \<bar>a * b\<bar> / 2 ^ 53"
    by (simp add: abs_mult)
  have "\<bar>d * b\<bar> \<le> \<bar>a * b\<bar> + \<bar>d * b - a * b\<bar>" by simp
  with e3 have "\<bar>d * b\<bar> \<le> \<bar>a * b\<bar> + \<bar>a * b\<bar> / 2 ^ 53" by linarith
  also have "\<dots> \<le> 2 * \<bar>a * b\<bar>" by simp
  finally have "\<bar>d * b\<bar> / 2 ^ 53 \<le> 2 * \<bar>a * b\<bar> / 2 ^ 53"
    by (simp add: divide_right_mono)
  with e2 have e4: "\<bar>fp_round 53 (d * b) - d * b\<bar> \<le> 2 * \<bar>a * b\<bar> / 2 ^ 53" by linarith
  have "\<bar>fp_round 53 (d * b) - a * b\<bar> \<le>
        \<bar>fp_round 53 (d * b) - d * b\<bar> + \<bar>d * b - a * b\<bar>" by simp
  with e3 e4 have "\<bar>fp_round 53 (d * b) - a * b\<bar> \<le> 3 * \<bar>a * b\<bar> / 2 ^ 53" by linarith
  also have "\<dots> \<le> \<bar>a * b\<bar> / 2 ^ 51" by simp
  finally show ?thesis by (simp add: d_def)
qed

text \<open>
  C1, as stated, fails at a tie: with five leaves, four rows and the position variable at
  one half the product is one half, which \<^verbatim>\<open>lrint\<close> rounds to the even integer 0, so the
  anchor moves from the second leaf to the leaf of rank 1; rounding one half up, as the claim's
  formula does, gives the leaf of rank 2.
\<close>

theorem onUpdate_percent_tie:
  "\<not> m_dontMove flat5_half \<and> m_positionVar flat5_half = Finite (1 / 2) \<and>
   item_count flat5_half - maxItems flat5_half = 1 \<and> m_firstPos flat5_half = Some 2 \<and>
   map_sum id m_firstPos (onUpdate_percent flat5_half) = Inr (Some 1) \<and>
   item_at_rank (traversal flat5_half)
     (round ((1 - 1 / 2) * rat_of_int (item_count flat5_half - maxItems flat5_half)) + 1) =
     Some 2"
  by code_simp

text \<open>
  C1, amended. When the position variable changes from outside (the control is not in the
  middle of its own guarded write, so \<^verbatim>\<open>m_dontMove\<close> is false), the handler computes the
  excess of the number of participating items over \<^verbatim>\<open>maxItems()\<close>. With no excess the
  anchor \<^verbatim>\<open>m_firstPos\<close> becomes the start of the traversal. Otherwise, for a finite value
  \<open>v\<close>, it becomes the item of rank \<open>n + 1\<close>, where \<open>n\<close> is the integer nearest to the product
  \<open>P\<close> of the doubles \<open>1.0 - v\<close> and the excess, the even one at a tie; the product \<open>P\<close> is
  within \<open>2\<close> to the power of \<open>- 51\<close>, relatively, of the exact product. For a value that is
  not finite \<^verbatim>\<open>lrint\<close> has no specified result. When the anchor changes the image is built
  again. In flat mode with 10 leaves and 4 rows, the value 1 gives the first leaf and the
  value 0 the seventh.
\<close>

theorem onUpdate_percent_anchor:
  "\<not> m_dontMove s \<longrightarrow>
     (item_count s - maxItems s \<le> 0 \<longrightarrow>
        map_sum id m_firstPos (onUpdate_percent s) = Inr (traversal_start s)) \<and>
     (0 < item_count s - maxItems s \<and> m_positionVar s = Finite v \<and>
      P = fp_round 53 (fp_round 53 (1 - v) * of_int (item_count s - maxItems s)) \<longrightarrow>
        map_sum id m_firstPos (onUpdate_percent s) =
          Inr (item_at_rank (traversal s) (round_half_even P + 1)) \<and>
        \<bar>of_int (round_half_even P) - P\<bar> \<le> 1 / 2 \<and>
        (P - of_int \<lfloor>P\<rfloor> = 1 / 2 \<longrightarrow> even (round_half_even P)) \<and>
        \<bar>P - (1 - v) * of_int (item_count s - maxItems s)\<bar> \<le>
          \<bar>(1 - v) * of_int (item_count s - maxItems s)\<bar> / 2 ^ 51) \<and>
     (0 < item_count s - maxItems s \<and>
      (m_positionVar s = NaN \<or> m_positionVar s = PlusInf \<or> m_positionVar s = MinusInf) \<longrightarrow>
        onUpdate_percent s = Inl LrintUnspecified) \<and>
     (position_anchor s = Inr it \<longrightarrow>
        onUpdate_percent s =
          Inr (if m_firstPos s \<noteq> it then makeImage (s\<lparr>m_firstPos := it\<rparr>) else s)) \<and>
     (m_flat s \<and> item_count s = 10 \<and> maxItems s = 4 \<longrightarrow>
        (m_positionVar s = Finite 1 \<longrightarrow>
           map_sum id m_firstPos (onUpdate_percent s) = Inr (Some (row_id (traversal s ! 0)))) \<and>
        (m_positionVar s = Finite 0 \<longrightarrow>
           map_sum id m_firstPos (onUpdate_percent s) = Inr (Some (row_id (traversal s ! 6)))))"
proof (intro impI)
  assume g: "\<not> m_dontMove s"
  have res: "map_sum id m_firstPos (onUpdate_percent s) = Inr a" if "position_anchor s = Inr a" for a
    using g that by (simp add: onUpdate_percent_def)
  have c1: "map_sum id m_firstPos (onUpdate_percent s) = Inr (traversal_start s)"
    if "item_count s - maxItems s \<le> 0"
    using that by (intro res) (simp add: position_anchor_def Let_def)
  have c2: "map_sum id m_firstPos (onUpdate_percent s) =
          Inr (item_at_rank (traversal s) (round_half_even P + 1))"
    if "0 < item_count s - maxItems s" "m_positionVar s = Finite v"
       "P = fp_round 53 (fp_round 53 (1 - v) * of_int (item_count s - maxItems s))"
    using that by (intro res) (simp add: position_anchor_finite)
  have c3: "\<bar>P - (1 - v) * of_int (item_count s - maxItems s)\<bar> \<le>
          \<bar>(1 - v) * of_int (item_count s - maxItems s)\<bar> / 2 ^ 51"
    if "P = fp_round 53 (fp_round 53 (1 - v) * of_int (item_count s - maxItems s))"
    unfolding that by (rule double_product_error)
  have c4: "onUpdate_percent s = Inl LrintUnspecified"
    if "0 < item_count s - maxItems s"
       "m_positionVar s = NaN \<or> m_positionVar s = PlusInf \<or> m_positionVar s = MinusInf"
    using g position_anchor_not_finite[OF that(2) that(1)] by (simp add: onUpdate_percent_def)
  have c5: "onUpdate_percent s =
          Inr (if m_firstPos s \<noteq> it then makeImage (s\<lparr>m_firstPos := it\<rparr>) else s)"
    if "position_anchor s = Inr it"
    using g that by (simp add: onUpdate_percent_def)
  have one: "map_sum id m_firstPos (onUpdate_percent s) = Inr (Some (row_id (traversal s ! 0)))"
    if "item_count s = 10" "maxItems s = 4" "m_positionVar s = Finite 1"
    using that by (intro res) (simp add: position_anchor_finite item_at_rank_def item_count_def)
  have six: "fp_round 53 6 = 6" by code_simp
  have zero: "map_sum id m_firstPos (onUpdate_percent s) = Inr (Some (row_id (traversal s ! 6)))"
    if "item_count s = 10" "maxItems s = 4" "m_positionVar s = Finite 0"
    using that
    by (intro res) (simp add: position_anchor_finite item_at_rank_def item_count_def six)
  from c1 c2 c3 c4 c5 one zero round_half_even_error[of P] round_half_even_tie[of P]
  show "(item_count s - maxItems s \<le> 0 \<longrightarrow>
        map_sum id m_firstPos (onUpdate_percent s) = Inr (traversal_start s)) \<and>
     (0 < item_count s - maxItems s \<and> m_positionVar s = Finite v \<and>
      P = fp_round 53 (fp_round 53 (1 - v) * of_int (item_count s - maxItems s)) \<longrightarrow>
        map_sum id m_firstPos (onUpdate_percent s) =
          Inr (item_at_rank (traversal s) (round_half_even P + 1)) \<and>
        \<bar>of_int (round_half_even P) - P\<bar> \<le> 1 / 2 \<and>
        (P - of_int \<lfloor>P\<rfloor> = 1 / 2 \<longrightarrow> even (round_half_even P)) \<and>
        \<bar>P - (1 - v) * of_int (item_count s - maxItems s)\<bar> \<le>
          \<bar>(1 - v) * of_int (item_count s - maxItems s)\<bar> / 2 ^ 51) \<and>
     (0 < item_count s - maxItems s \<and>
      (m_positionVar s = NaN \<or> m_positionVar s = PlusInf \<or> m_positionVar s = MinusInf) \<longrightarrow>
        onUpdate_percent s = Inl LrintUnspecified) \<and>
     (position_anchor s = Inr it \<longrightarrow>
        onUpdate_percent s =
          Inr (if m_firstPos s \<noteq> it then makeImage (s\<lparr>m_firstPos := it\<rparr>) else s)) \<and>
     (m_flat s \<and> item_count s = 10 \<and> maxItems s = 4 \<longrightarrow>
        (m_positionVar s = Finite 1 \<longrightarrow>
           map_sum id m_firstPos (onUpdate_percent s) = Inr (Some (row_id (traversal s ! 0)))) \<and>
        (m_positionVar s = Finite 0 \<longrightarrow>
           map_sum id m_firstPos (onUpdate_percent s) = Inr (Some (row_id (traversal s ! 6)))))"
    by blast
qed

theorem onUpdate_percent_anchor_witness:
  "\<not> m_dontMove flat5_half \<and> 0 < item_count flat5_half - maxItems flat5_half \<and>
   m_positionVar flat5_half = Finite (1 / 2) \<and>
   fp_round 53 (fp_round 53 (1 - 1 / 2) * of_int (item_count flat5_half - maxItems flat5_half)) =
     1 / 2 \<and>
   round_half_even (1 / 2) = 0 \<and>
   map_sum id m_firstPos (onUpdate_percent flat5_half) = Inr (Some 1) \<and>
   \<not> m_dontMove flat10_bottom \<and> m_flat flat10_bottom \<and> item_count flat10_bottom = 10 \<and>
   maxItems flat10_bottom = 4 \<and> m_positionVar flat10_bottom = Finite 0 \<and>
   m_firstPos flat10_bottom = Some 1 \<and>
   map_sum id m_firstPos (onUpdate_percent flat10_bottom) = Inr (Some 7) \<and>
   \<not> m_dontMove flat10_middle \<and> m_flat flat10_middle \<and> item_count flat10_middle = 10 \<and>
   maxItems flat10_middle = 4 \<and> m_positionVar flat10_middle = Finite 1 \<and>
   m_firstPos flat10_middle = Some 5 \<and>
   map_sum id m_firstPos (onUpdate_percent flat10_middle) = Inr (Some 1)"
proof -
  have t: "\<not> m_dontMove flat5_half" "0 < item_count flat5_half - maxItems flat5_half"
    "m_positionVar flat5_half = Finite (1 / 2)"
    by code_simp+
  have p: "fp_round 53 (fp_round 53 (1 - 1 / 2) *
             of_int (item_count flat5_half - maxItems flat5_half)) = 1 / 2"
    "round_half_even (1 / 2) = 0"
    "item_at_rank (traversal flat5_half) 1 = Some 1"
    by code_simp+
  have h: "\<not> m_dontMove flat10_bottom" "m_flat flat10_bottom" "item_count flat10_bottom = 10"
    "maxItems flat10_bottom = 4" "m_positionVar flat10_bottom = Finite 0"
    "m_firstPos flat10_bottom = Some 1"
    by code_simp+
  have k: "\<not> m_dontMove flat10_middle" "m_flat flat10_middle" "item_count flat10_middle = 10"
    "maxItems flat10_middle = 4" "m_positionVar flat10_middle = Finite 1"
    "m_firstPos flat10_middle = Some 5"
    by code_simp+
  have r: "row_id (traversal flat10_bottom ! 6) = 7" "row_id (traversal flat10_middle ! 0) = 1"
    by code_simp+
  note tie = onUpdate_percent_anchor [of flat5_half "1 / 2" "1 / 2", rule_format,
      OF t(1), THEN conjunct2, THEN conjunct1, rule_format, OF conjI, OF t(2) conjI,
      OF t(3) p(1)[symmetric], THEN conjunct1]
  from tie p have c: "map_sum id m_firstPos (onUpdate_percent flat5_half) = Inr (Some 1)"
    by simp
  from onUpdate_percent_anchor [of flat10_bottom] h
  have a: "map_sum id m_firstPos (onUpdate_percent flat10_bottom) =
           Inr (Some (row_id (traversal flat10_bottom ! 6)))"
    by blast
  from onUpdate_percent_anchor [of flat10_middle] k
  have b: "map_sum id m_firstPos (onUpdate_percent flat10_middle) =
           Inr (Some (row_id (traversal flat10_middle ! 0)))"
    by blast
  from a b c t p h k r show ?thesis
    by simp
qed

subsection \<open>The anchor after a deletion\<close>

text \<open>
  The loop stops at an item that is not deleted or at the start of the traversal. So the
  anchor can point to a deleted item after the notification only when it is the fallback,
  \<^verbatim>\<open>m_rTree.begin()\<close>.
\<close>

lemma walk_back_result:
  "walk_back s it = Inr it' \<Longrightarrow>
   \<exists>r. deref (m_rTree s) it' = Some r \<and> (\<not> m_deleted (snd r) \<or> it' = traversal_start s)"
proof (induction s it rule: walk_back.induct)
  case (1 s it)
  show ?case
  proof (cases "deref (m_rTree s) it")
    case None
    with "1.prems" show ?thesis by (simp add: walk_back.simps[of s it])
  next
    case (Some r)
    show ?thesis
    proof (cases "m_deleted (snd r) \<and> it \<noteq> traversal_start s")
      case True
      with Some "1.prems" have "walk_back s (prev_item s it) = Inr it'"
        by (simp add: walk_back.simps[of s it])
      with "1.IH"[OF Some True] show ?thesis .
    next
      case False
      with Some "1.prems" have "it' = it" by (simp add: walk_back.simps[of s it])
      with Some False show ?thesis by auto
    qed
  qed
qed

lemma onUpdate_DeleteItem_anchor:
  assumes h: "onUpdate_DeleteItem s i = Inr s'" and a: "anchor_deleted s'"
  shows "m_firstPos s' = tree_begin s"
proof (cases "walk_back s (m_firstPos s)")
  case (Inl e)
  with h show ?thesis by (simp add: onUpdate_DeleteItem_def)
next
  case (Inr it)
  show ?thesis
  proof (cases "deref (m_rTree s) it")
    case None
    with h Inr show ?thesis by (simp add: onUpdate_DeleteItem_def)
  next
    case (Some r)
    define s1 where "s1 = s\<lparr>m_firstPos := (if m_deleted (snd r) then tree_begin s else it)\<rparr>"
    from h Inr Some have "s' = makeImage s1 \<or> s' = s1"
      by (auto simp: onUpdate_DeleteItem_def Let_def s1_def[symmetric]
          split: sum.splits if_splits)
    then have f: "m_firstPos s' = m_firstPos s1" "m_rTree s' = m_rTree s1" by auto
    show ?thesis
    proof (cases "m_deleted (snd r)")
      case True
      with f show ?thesis by (simp add: s1_def)
    next
      case False
      with f Some a show ?thesis by (simp add: s1_def anchor_deleted_def)
    qed
  qed
qed

text \<open>
  C2. After a delete notification the anchor should never point to a deleted item. The code
  walks back from a deleted anchor to the start of the traversal and then falls back to
  \<^verbatim>\<open>m_rTree.begin()\<close> without looking at it: with the first item deleted and at the top,
  the notification is handled and the anchor still points to the deleted item.
\<close>

theorem onUpdate_DeleteItem_keeps_deleted_anchor:
  "anchor_deleted deleted_first \<and>
   map_sum id (\<lambda>s. (m_firstPos s, anchor_deleted s)) (onUpdate_DeleteItem deleted_first 1)
     = Inr (Some 1, True)"
  by code_simp

subsection \<open>The selection after the key Delete\<close>

text \<open>
  C3. After the key Delete at least one item should be selected. With the first item
  selected and last selected, the loop that looks for an item that is not selected before it
  finds none and keeps its initial value, the first item itself; \<^verbatim>\<open>delSelected\<close> removes
  that item, nothing is left selected, and \<^verbatim>\<open>it_sel->setSelected( true )\<close> goes through
  an iterator to the removed item. The item that is left is not selected. (With the second
  item selected instead, the first item is selected after the key, as it should.)
\<close>

theorem key_delete_selected_first:
  "find_it_sel (traversal selected_first) (m_pLastSelected selected_first)
     (traversal_start selected_first) = Some 1 \<and>
   delSelected (m_rTree selected_first) = [named 2 ''b'' False False] \<and>
   map_sum id m_rTree (key_delete selected_first) = Inl InvalidIterator \<and>
   map_sum id m_rTree (handleEvent selected_first KeyDelete) = Inl InvalidIterator \<and>
   map_sum id (\<lambda>s. (map m_selected (m_rTree s), m_pLastSelected s))
     (handleEvent selected_second KeyDelete) = Inr ([True], Some 1)"
  by code_simp

subsection \<open>Deleted items under the mouse\<close>

text \<open>
  C8. Deleted items should be skipped wherever the traversal is consumed. \<^verbatim>\<open>makeImage\<close>
  skips them when it steps to the next row, \<^verbatim>\<open>findItemAtPos\<close> does not: with a deleted
  item between two others, the second row of the image shows the third item, and a click on
  the second row selects the deleted item.
\<close>

theorem findItemAtPos_hits_deleted:
  "rows_at deleted_middle (m_firstPos deleted_middle) =
     rows_from (traversal deleted_middle) (m_firstPos deleted_middle) \<and>
   findItemAtPos deleted_middle 1 = Some 2 \<and>
   map_option (\<lambda>r. m_deleted (snd r)) (deref (m_rTree deleted_middle) (Some 2)) = Some True \<and>
   fst (text_loop deleted_middle 100 40 0
          (rows_from (traversal deleted_middle) (m_firstPos deleted_middle))) =
     [DrawBitmap \<lparr>bmp_name = ''a'', bmp_width = 10, bmp_height = 9\<rparr> 0 0 7 1 10 9 True,
      DrawBitmap \<lparr>bmp_name = ''c'', bmp_width = 10, bmp_height = 9\<rparr> 0 0 7 11 10 9 True] \<and>
   map_sum id (\<lambda>s. (map m_selected (m_rTree s), m_pLastSelected s))
     (handleEvent deleted_middle (MouseLeftDown 50 15)) = Inr ([False, True, False], Some 2)"
  by code_simp

subsection \<open>A shift click on the last selected item\<close>

lemma shift_loop_symmetric:
  "shift_loop t rs (Some a) (Some b) select = shift_loop t rs (Some b) (Some a) select"
proof (induction rs arbitrary: t select)
  case Nil
  show ?case by simp
next
  case (Cons r rs)
  have "(Some (row_id r) = Some a \<or> Some (row_id r) = Some b) =
        (Some (row_id r) = Some b \<or> Some (row_id r) = Some a)"
    by blast
  with Cons show ?case by (simp add: Let_def)
qed

text \<open>
  C9. A shift click should select the items between the last selected item and the clicked
  item, both included, and no other. The loop treats the two items alike, so exchanging them
  changes nothing (\<open>shift_loop_symmetric\<close>). But when the clicked item is the last selected
  item itself, the loop switches the selection on at that item and never off: every item from
  there to the end of the traversal is selected. (A shift click on the second row selects the
  first two items, as it should.)
\<close>

theorem shift_click_on_last_selected:
  "findItemAtPos three_items 0 = m_pLastSelected three_items \<and>
   map_sum id (\<lambda>s. map m_selected (m_rTree s))
     (handleEvent three_items (MouseLeftDownShift 50 5)) = Inr [True, True, True] \<and>
   findItemAtPos three_items 1 = Some 2 \<and>
   map_sum id (\<lambda>s. map m_selected (m_rTree s))
     (handleEvent three_items (MouseLeftDownShift 50 15)) = Inr [True, True, False]"
  by code_simp

subsection \<open>The cached image after makeImage\<close>

lemma itemHeight_image [simp]: "itemHeight (s\<lparr>m_pImage := x\<rparr>) = itemHeight s"
  by (simp add: itemHeight_def Let_def)

lemma itemImageWidth_image [simp]: "itemImageWidth (s\<lparr>m_pImage := x\<rparr>) = itemImageWidth s"
  by (simp add: itemImageWidth_def Let_def)

lemma draw_row_image [simp]: "draw_row (s\<lparr>m_pImage := x\<rparr>) w h y r = draw_row s w h y r"
  by (simp add: draw_row_def Let_def cong: if_cong option.case_cong)

lemma text_loop_image [simp]:
  "text_loop (s\<lparr>m_pImage := x\<rparr>) w h y rows = text_loop s w h y rows"
proof (induction s w h y rows rule: text_loop.induct)
  case (1 s width height yPos rows)
  show ?case
  proof (cases rows)
    case Nil
    then show ?thesis by (simp add: text_loop.simps)
  next
    case (Cons r rest)
    show ?thesis
    proof (cases "yPos < height")
      case False
      with Cons show ?thesis by (simp add: text_loop.simps)
    next
      case True
      show ?thesis
      proof (cases "draw_row s width height yPos r")
        case (Drawn ops y')
        with 1[OF Cons True Drawn] Cons True show ?thesis
          by (simp add: text_loop.simps[of _ width height yPos "r # rest"])
      qed (use Cons True in \<open>simp_all add: text_loop.simps[of _ width height yPos "r # rest"]\<close>)
    qed
  qed
qed

lemma background_image [simp]:
  "background (s\<lparr>m_pImage := x\<rparr>) w h rows = background s w h rows"
  by (simp add: background_def cong: option.case_cong)

lemma traversal_image [simp]: "traversal (s\<lparr>m_pImage := x\<rparr>) = traversal s"
  by (simp add: traversal_def)

lemma participates_image [simp]: "participates (s\<lparr>m_pImage := x\<rparr>) = participates s"
  by (rule ext) (simp add: participates_def)

lemma next_item_image [simp]: "next_item (s\<lparr>m_pImage := x\<rparr>) it = next_item s it"
  by (simp add: next_item_def following_def)

lemma rows_at_image [simp]: "rows_at (s\<lparr>m_pImage := x\<rparr>) it = rows_at s it"
  by (simp add: rows_at_def cong: if_cong option.case_cong)





text \<open>
  The loops of \<^verbatim>\<open>makeImage\<close> and \<^verbatim>\<open>findItemAtPos\<close> start at the anchor itself: in flat
  mode with the anchor on a node, the node is the first row and the leaves after it follow.
\<close>

lemma rows_at_node:
  "m_flat node_flat \<and> m_firstPos node_flat = Some 2 \<and>
   rows_from (traversal node_flat) (m_firstPos node_flat) = [] \<and>
   map row_id (rows_at node_flat (m_firstPos node_flat)) = [2, 3, 4, 5, 6] \<and>
   findItemAtPos node_flat 0 = Some 2 \<and> findItemAtPos node_flat 1 = Some 3"
  by code_simp




subsection \<open>The last selected item under the clicks\<close>

text \<open>
  C10. A shift click and a ctrl+shift click leave \<^verbatim>\<open>m_pLastSelected\<close> as it was; a ctrl
  click on an item, and a plain click on an item outside the icon of a node, make it the item
  hit. So a second shift click measures its range from the item that was last selected before
  the first one.
\<close>

theorem range_clicks_keep_last_selected:
  "(handleEvent s (MouseLeftDownShift x y) = Inr s1 \<longrightarrow>
      m_pLastSelected s1 = m_pLastSelected s) \<and>
   (handleEvent s (MouseLeftDownCtrlShift x y) = Inr s2 \<longrightarrow>
      m_pLastSelected s2 = m_pLastSelected s) \<and>
   (handleEvent s (MouseLeftDownCtrl x y) = Inr s3 \<and> mouse_cell s x y = Inr (xPos, yPos) \<and>
    findItemAtPos s yPos = Some i \<longrightarrow> m_pLastSelected s3 = Some i) \<and>
   (handleEvent s (MouseLeftDown x y) = Inr s4 \<and> mouse_cell s x y = Inr (xPos, yPos) \<and>
    findItemAtPos s yPos = Some i \<and> deref (m_rTree s) (Some i) = Some r \<and>
    \<not> on_icon s r xPos \<longrightarrow> m_pLastSelected s4 = Some i) \<and>
   (handleEvent s (MouseLeftDownShift x y) = Inr s1 \<and> mouse_cell s1 x' y' = Inr (xPos', yPos') \<and>
    handleEvent s1 (MouseLeftDownShift x' y') = Inr s5 \<longrightarrow>
      m_rTree s5 =
        shift_loop (m_rTree s1) (traversal s1) (findItemAtPos s1 yPos') (m_pLastSelected s) False)"
  by (auto simp: handleEvent_def mouse_shift_def mouse_ctrl_shift_def mouse_ctrl_def
        mouse_plain_def Let_def split: sum.splits prod.splits option.splits if_splits)


theorem range_clicks_keep_last_selected_witness:
  "handleEvent three_items (MouseLeftDownShift 50 25) = Inr (mouse_shift three_items 2) \<and>
   handleEvent three_items (MouseLeftDownCtrlShift 50 25) = Inr (mouse_ctrl_shift three_items 2) \<and>
   handleEvent three_items (MouseLeftDownCtrl 50 25) = Inr (mouse_ctrl three_items 2) \<and>
   handleEvent three_items (MouseLeftDown 50 25) = Inr plain_clicked \<and>
   mouse_cell three_items 50 25 = Inr (50, 2) \<and>
   findItemAtPos three_items 2 = Some 3 \<and>
   deref (m_rTree three_items) (Some 3) = Some (Suc 0, named 3 ''c'' False False) \<and>
   \<not> on_icon three_items (Suc 0, named 3 ''c'' False False) 50 \<and>
   mouse_cell (mouse_shift three_items 2) 50 15 = Inr (50, 1) \<and>
   handleEvent (mouse_shift three_items 2) (MouseLeftDownShift 50 15) =
     Inr (mouse_shift (mouse_shift three_items 2) 1) \<and>
   m_pLastSelected three_items = Some 1 \<and>
   m_pLastSelected (mouse_shift three_items 2) = Some 1 \<and>
   m_pLastSelected (mouse_ctrl_shift three_items 2) = Some 1 \<and>
   m_pLastSelected (mouse_ctrl three_items 2) = Some 3 \<and>
   m_pLastSelected plain_clicked = Some 3 \<and>
   map m_selected (m_rTree (mouse_shift three_items 2)) = [True, True, True] \<and>
   map m_selected (m_rTree (mouse_shift (mouse_shift three_items 2) 1)) = [True, True, False]"
proof -
  have cell: "mouse_cell three_items 50 25 = Inr (50, 2)"
    by code_simp
  have cell': "mouse_cell (mouse_shift three_items 2) 50 15 = Inr (50, 1)"
    by code_simp
  have hit: "findItemAtPos three_items 2 = Some 3"
    "deref (m_rTree three_items) (Some 3) = Some (Suc 0, named 3 ''c'' False False)"
    "\<not> on_icon three_items (Suc 0, named 3 ''c'' False False) 50"
    "m_pLastSelected three_items = Some 1"
    by code_simp+
  have e1: "handleEvent three_items (MouseLeftDownShift 50 25) = Inr (mouse_shift three_items 2)"
    and e2: "handleEvent three_items (MouseLeftDownCtrlShift 50 25) =
             Inr (mouse_ctrl_shift three_items 2)"
    and e3: "handleEvent three_items (MouseLeftDownCtrl 50 25) = Inr (mouse_ctrl three_items 2)"
    by (simp_all add: handleEvent_def cell)
  have e4: "handleEvent three_items (MouseLeftDown 50 25) = Inr plain_clicked"
    by (simp add: handleEvent_def cell mouse_plain_def hit plain_clicked_def)
  have e5: "handleEvent (mouse_shift three_items 2) (MouseLeftDownShift 50 15) =
            Inr (mouse_shift (mouse_shift three_items 2) 1)"
    by (simp add: handleEvent_def cell')
  note inst = range_clicks_keep_last_selected
    [of three_items 50 25 "mouse_shift three_items 2" "mouse_ctrl_shift three_items 2"
        "mouse_ctrl three_items 2" 50 2 3 plain_clicked "(Suc 0, named 3 ''c'' False False)"
        50 15 50 1 "mouse_shift (mouse_shift three_items 2) 1"]
  from inst e1 e2 e3 e4 e5 cell cell' hit
  have c: "m_pLastSelected (mouse_shift three_items 2) = Some 1"
    "m_pLastSelected (mouse_ctrl_shift three_items 2) = Some 1"
    "m_pLastSelected (mouse_ctrl three_items 2) = Some 3"
    "m_pLastSelected plain_clicked = Some 3"
    by simp_all
  have v: "map m_selected (m_rTree (mouse_shift three_items 2)) = [True, True, True]"
    "map m_selected (m_rTree (mouse_shift (mouse_shift three_items 2) 1)) = [True, True, False]"
    by code_simp+
  from e1 e2 e3 e4 e5 cell cell' hit c v show ?thesis
    by simp
qed

subsection \<open>Who writes the position variable, and under which guard\<close>

lemma clamp_percentage_finite: "v \<noteq> NaN \<Longrightarrow> \<exists>y. clamp_percentage p v = Finite y"
  by (cases v) (simp_all add: clamp_percentage_def fp_cast_def Let_def)

lemma set_position_total:
  "v \<noteq> NaN \<Longrightarrow> \<not> isl (set_position s v)"
proof -
  assume "v \<noteq> NaN"
  from clamp_percentage_finite[OF this] obtain y where
    "clamp_percentage (m_positionBits s) v = Finite y" by blast
  from set_position_finite[OF this] show ?thesis
    by (cases "set_position s v") simp_all
qed

lemma scroll_total: "m_positionVar s = Finite p \<Longrightarrow> \<not> isl (scroll s direction)"
  unfolding scroll_def Let_def
  by (rule set_position_total) (simp add: d_of_int_def fp_sub_def inf_of_sign_def)

lemma ensureVisible_total:
  assumes "getRank (s\<lparr>m_rTree := ensureExpanded (m_rTree s) item\<rparr>) (m_firstPos s) = Some a"
    and "getRank (s\<lparr>m_rTree := ensureExpanded (m_rTree s) item\<rparr>) item = Some r"
    and "item_count (s\<lparr>m_rTree := ensureExpanded (m_rTree s) item\<rparr>) \<noteq> 1"
  shows "\<not> isl (ensureVisible s item)"
proof -
  define s1 where "s1 = s\<lparr>m_rTree := ensureExpanded (m_rTree s) item\<rparr>"
  from assms have r: "getRank s1 (m_firstPos s1) = Some a" "getRank s1 item = Some r"
    "item_count s1 \<noteq> 1"
    by (simp_all add: s1_def)
  from r(3) have "fp_sub 53 (Finite 1)
      (fp_div 53 (d_of_int (r - 1)) (d_of_int (item_count s1 - 1))) \<noteq> NaN"
    by (simp add: d_of_int_def fp_sub_def)
  from set_position_total[OF this, of s1] obtain s' where
    "set_position s1 (fp_sub 53 (Finite 1)
       (fp_div 53 (d_of_int (r - 1)) (d_of_int (item_count s1 - 1)))) = Inr s'"
    by (cases "set_position s1 (fp_sub 53 (Finite 1)
       (fp_div 53 (d_of_int (r - 1)) (d_of_int (item_count s1 - 1))))") simp_all
  with r show ?thesis
    by (simp add: ensureVisible_def Let_def s1_def[symmetric])
qed

text \<open>
  C6, as stated, fails: with twenty leaves and the first one at the top,
  \<^verbatim>\<open>ensureVisible\<close> of the eighth leaf writes the position variable while the guard is
  clear, and the handler of the control moves the anchor from the first to the seventh leaf.
\<close>

theorem ensureVisible_moves_anchor:
  "\<not> m_dontMove flat20 \<and> m_firstPos flat20 = Some 1 \<and>
   map_sum id (\<lambda>r. (fst r, m_dontMove (snd r), m_positionVar (snd r), m_firstPos (snd r)))
     (ensureVisible flat20 (Some 8)) = Inr (True, False, Finite (1324517 / 2097152), Some 7)"
  by code_simp

text \<open>
  C6, amended. The guard \<^verbatim>\<open>m_dontMove\<close> is set around one write of the position
  variable only: the one at the end of \<^verbatim>\<open>handleEvent\<close>, after an event that changed the
  expansion of a node (a click on the icon of a node, the keys Left and Right). This write
  never fails, whatever the tree: the handler of the control returns at once, so the anchor,
  the image and everything else but the position variable stay as they were, the variable
  holds the clamped value of \<open>1.0 - (float)iFirst / (float)indexMax\<close> (NaN when the quotient
  is \<open>0/0\<close>), and the guard is clear afterwards. \<^verbatim>\<open>ensureVisible\<close> and the scroll wheel
  write the position variable without touching the guard: when the guard is clear and the
  value changes (\<^verbatim>\<open>!=\<close>), the handler moves the anchor to the item that the new value
  resolves to. The scroll wheel fails in no state whose position is finite, and
  \<^verbatim>\<open>ensureVisible\<close> in no state in which the anchor and the item have a rank and there is
  more than one participating item (otherwise a rank is undefined, or \<^verbatim>\<open>lrint\<close> can meet
  NaN).
\<close>

theorem position_writes_and_guard:
  "fix_position s =
     Inr (s\<lparr>m_positionVar :=
              clamp_percentage (m_positionBits s)
                (fp_sub 53 (Finite 1)
                   (fp_div 24 (f_of_int (index_of (traversal s) (m_firstPos s)))
                      (f_of_int (item_count s - 1)))),
            m_dontMove := False\<rparr>) \<and>
   (event_branch s e = Inr (s2, True) \<longrightarrow>
      handleEvent s e =
        Inr (s2\<lparr>m_positionVar :=
                  clamp_percentage (m_positionBits s2)
                    (fp_sub 53 (Finite 1)
                       (fp_div 24 (f_of_int (index_of (traversal s2) (m_firstPos s2)))
                          (f_of_int (item_count s2 - 1)))),
                m_dontMove := False\<rparr>)) \<and>
   (event_branch s e = Inr (s2, True) \<and> handleEvent s e = Inr s3 \<longrightarrow>
      m_firstPos s3 = m_firstPos s2 \<and> m_pImage s3 = m_pImage s2 \<and> \<not> m_dontMove s3) \<and>
   (\<not> m_dontMove s \<and> ensureVisible s item = Inr (True, s4) \<and>
    fp_neq (m_positionVar s) (m_positionVar s4) \<longrightarrow>
      \<not> m_dontMove s4 \<and> position_anchor s4 = Inr (m_firstPos s4)) \<and>
   (\<not> m_dontMove s \<and> scroll s direction = Inr s5 \<and>
    fp_neq (m_positionVar s) (m_positionVar s5) \<longrightarrow>
      \<not> m_dontMove s5 \<and> position_anchor s5 = Inr (m_firstPos s5)) \<and>
   (m_positionVar s = Finite p \<longrightarrow> \<not> isl (scroll s direction)) \<and>
   (getRank (s\<lparr>m_rTree := ensureExpanded (m_rTree s) item\<rparr>) (m_firstPos s) = Some a \<and>
    getRank (s\<lparr>m_rTree := ensureExpanded (m_rTree s) item\<rparr>) item = Some r \<and>
    item_count (s\<lparr>m_rTree := ensureExpanded (m_rTree s) item\<rparr>) \<noteq> 1 \<longrightarrow>
      \<not> isl (ensureVisible s item))"
proof (intro conjI impI)
  show "fix_position s =
     Inr (s\<lparr>m_positionVar :=
              clamp_percentage (m_positionBits s)
                (fp_sub 53 (Finite 1)
                   (fp_div 24 (f_of_int (index_of (traversal s) (m_firstPos s)))
                      (f_of_int (item_count s - 1)))),
            m_dontMove := False\<rparr>)"
    by (rule fix_position_guarded)
next
  assume "event_branch s e = Inr (s2, True)"
  then show "handleEvent s e =
        Inr (s2\<lparr>m_positionVar :=
                  clamp_percentage (m_positionBits s2)
                    (fp_sub 53 (Finite 1)
                       (fp_div 24 (f_of_int (index_of (traversal s2) (m_firstPos s2)))
                          (f_of_int (item_count s2 - 1)))),
                m_dontMove := False\<rparr>)"
    by (simp add: handleEvent_def fix_position_guarded)
next
  assume a: "event_branch s e = Inr (s2, True) \<and> handleEvent s e = Inr s3"
  then have "event_branch s e = Inr (s2, True)" "handleEvent s e = Inr s3" by simp_all
  then have s3: "s3 = s2\<lparr>m_positionVar :=
                  clamp_percentage (m_positionBits s2)
                    (fp_sub 53 (Finite 1)
                       (fp_div 24 (f_of_int (index_of (traversal s2) (m_firstPos s2)))
                          (f_of_int (item_count s2 - 1)))),
                m_dontMove := False\<rparr>"
    by (simp add: handleEvent_def fix_position_guarded)
  show "m_firstPos s3 = m_firstPos s2" by (simp add: s3)
  show "m_pImage s3 = m_pImage s2" by (simp add: s3)
  show "\<not> m_dontMove s3" by (simp add: s3)
next
  assume a: "\<not> m_dontMove s \<and> ensureVisible s item = Inr (True, s4) \<and>
    fp_neq (m_positionVar s) (m_positionVar s4)"
  define s0 where "s0 = s\<lparr>m_rTree := ensureExpanded (m_rTree s) item\<rparr>"
  from a obtain v where s4: "set_position s0 v = Inr s4"
    by (auto simp: ensureVisible_def Let_def s0_def split: option.splits if_splits sum.splits)
  have g: "\<not> m_dontMove s0" using a by (simp add: s0_def)
  have ne: "fp_neq (m_positionVar s0) (m_positionVar s4)"
    using a by (simp add: s0_def)
  show "\<not> m_dontMove s4" using g set_position_frame(5)[OF s4] by simp
  show "position_anchor s4 = Inr (m_firstPos s4)"
    by (rule set_position_resolves[OF g s4 ne])
next
  assume a: "\<not> m_dontMove s \<and> scroll s direction = Inr s5 \<and>
    fp_neq (m_positionVar s) (m_positionVar s5)"
  then obtain v where s5: "set_position s v = Inr s5"
    by (auto simp: scroll_def Let_def)
  from a have g: "\<not> m_dontMove s" and ne: "fp_neq (m_positionVar s) (m_positionVar s5)"
    by simp_all
  show "\<not> m_dontMove s5" using g set_position_frame(5)[OF s5] by simp
  show "position_anchor s5 = Inr (m_firstPos s5)"
    by (rule set_position_resolves[OF g s5 ne])
next
  assume "m_positionVar s = Finite p"
  then show "\<not> isl (scroll s direction)" by (rule scroll_total)
next
  assume "getRank (s\<lparr>m_rTree := ensureExpanded (m_rTree s) item\<rparr>) (m_firstPos s) = Some a \<and>
    getRank (s\<lparr>m_rTree := ensureExpanded (m_rTree s) item\<rparr>) item = Some r \<and>
    item_count (s\<lparr>m_rTree := ensureExpanded (m_rTree s) item\<rparr>) \<noteq> 1"
  then show "\<not> isl (ensureVisible s item)"
    using ensureVisible_total[of s item a r] by blast
qed

theorem position_writes_and_guard_witness:
  "fix_position single = Inr (single\<lparr>m_positionVar := NaN, m_dontMove := False\<rparr>) \<and>
   event_branch album (MouseLeftDown 3 5) = Inr (album_open, True) \<and>
   handleEvent album (MouseLeftDown 3 5) =
     Inr (album_open\<lparr>m_positionVar := Finite (13421773 / 16777216), m_dontMove := False\<rparr>) \<and>
   m_firstPos album_open = Some 2 \<and>
   map_sum id m_firstPos
     (onUpdate_percent (album_open\<lparr>m_positionVar := Finite (13421773 / 16777216)\<rparr>)) =
     Inr (Some 1) \<and>
   \<not> isl (event_branch album_selected KeyRight) \<and>
   snd (projr (event_branch album_selected KeyRight)) \<and>
   \<not> isl (handleEvent album_selected KeyRight) \<and>
   map m_expanded (m_rTree (projr (handleEvent album_selected KeyRight))) =
     [False, True, False] \<and>
   m_firstPos (fst (projr (event_branch album_selected KeyRight))) = Some 2 \<and>
   m_firstPos (projr (handleEvent album_selected KeyRight)) = Some 2 \<and>
   \<not> m_dontMove (projr (handleEvent album_selected KeyRight)) \<and>
   \<not> m_dontMove flat20 \<and> m_positionVar flat20 = Finite 1 \<and>
   getRank (flat20\<lparr>m_rTree := ensureExpanded (m_rTree flat20) (Some 8)\<rparr>) (m_firstPos flat20) =
     Some 1 \<and>
   getRank (flat20\<lparr>m_rTree := ensureExpanded (m_rTree flat20) (Some 8)\<rparr>) (Some 8) = Some 8 \<and>
   item_count (flat20\<lparr>m_rTree := ensureExpanded (m_rTree flat20) (Some 8)\<rparr>) \<noteq> 1 \<and>
   \<not> isl (ensureVisible flat20 (Some 8)) \<and>
   fst (projr (ensureVisible flat20 (Some 8))) \<and>
   m_positionVar (snd (projr (ensureVisible flat20 (Some 8)))) = Finite (1324517 / 2097152) \<and>
   m_firstPos (snd (projr (ensureVisible flat20 (Some 8)))) = Some 7 \<and>
   \<not> isl (scroll flat20 kDown) \<and>
   m_positionVar (projr (scroll flat20 kDown)) = Finite (7549747 / 8388608) \<and>
   m_firstPos (projr (scroll flat20 kDown)) = Some 3"
proof -
  have one: "clamp_percentage (m_positionBits single)
       (fp_sub 53 (Finite 1)
          (fp_div 24 (f_of_int (index_of (traversal single) (m_firstPos single)))
             (f_of_int (item_count single - 1)))) = NaN"
    by code_simp
  have c0: "fix_position single = Inr (single\<lparr>m_positionVar := NaN, m_dontMove := False\<rparr>)"
    using position_writes_and_guard [of single, THEN conjunct1] by (simp only: one)
  have cell: "mouse_cell album 3 5 = Inr (3, 0)"
    "findItemAtPos album 0 = Some 2"
    "deref (m_rTree album) (Some 2) =
       Some (Suc 0, Item 2 (Some ''album'') False False False False [track 3, track 4, track 5])"
    "on_icon album
       (Suc 0, Item 2 (Some ''album'') False False False False [track 3, track 4, track 5]) 3"
    by code_simp+
  have b: "event_branch album (MouseLeftDown 3 5) = Inr (album_open, True)"
    by (simp add: cell mouse_plain_def album_open_def)
  have two: "clamp_percentage (m_positionBits album_open)
       (fp_sub 53 (Finite 1)
          (fp_div 24 (f_of_int (index_of (traversal album_open) (m_firstPos album_open)))
             (f_of_int (item_count album_open - 1)))) = Finite (13421773 / 16777216)"
    by code_simp
  have c1: "handleEvent album (MouseLeftDown 3 5) =
     Inr (album_open\<lparr>m_positionVar := Finite (13421773 / 16777216), m_dontMove := False\<rparr>)"
    using position_writes_and_guard [of album "MouseLeftDown 3 5" album_open,
        THEN conjunct2, THEN conjunct1, rule_format, OF b]
    by (simp only: two)
  have ok: "\<not> isl (event_branch album_selected KeyRight)"
    "snd (projr (event_branch album_selected KeyRight))"
    "\<not> isl (handleEvent album_selected KeyRight)"
    "\<not> m_dontMove flat20"
    "getRank (flat20\<lparr>m_rTree := ensureExpanded (m_rTree flat20) (Some 8)\<rparr>) (m_firstPos flat20) =
       Some 1"
    "getRank (flat20\<lparr>m_rTree := ensureExpanded (m_rTree flat20) (Some 8)\<rparr>) (Some 8) = Some 8"
    "item_count (flat20\<lparr>m_rTree := ensureExpanded (m_rTree flat20) (Some 8)\<rparr>) \<noteq> 1"
    "fst (projr (ensureVisible flat20 (Some 8)))"
    by code_simp+
  have v: "m_firstPos album_open = Some 2"
    "map_sum id m_firstPos
       (onUpdate_percent (album_open\<lparr>m_positionVar := Finite (13421773 / 16777216)\<rparr>)) =
       Inr (Some 1)"
    "map m_expanded (m_rTree (projr (handleEvent album_selected KeyRight))) =
       [False, True, False]"
    "m_firstPos (fst (projr (event_branch album_selected KeyRight))) = Some 2"
    "m_positionVar flat20 = Finite 1"
    "m_positionVar (snd (projr (ensureVisible flat20 (Some 8)))) = Finite (1324517 / 2097152)"
    "m_positionVar (projr (scroll flat20 kDown)) = Finite (7549747 / 8388608)"
    by code_simp+
  have r: "position_anchor (snd (projr (ensureVisible flat20 (Some 8)))) = Inr (Some 7)"
    "position_anchor (projr (scroll flat20 kDown)) = Inr (Some 3)"
    "fp_neq (m_positionVar flat20) (m_positionVar (snd (projr (ensureVisible flat20 (Some 8)))))"
    "fp_neq (m_positionVar flat20) (m_positionVar (projr (scroll flat20 kDown)))"
    by code_simp+
  have k1: "event_branch album_selected KeyRight =
      Inr (fst (projr (event_branch album_selected KeyRight)), True)"
    using ok(1,2) by (cases "event_branch album_selected KeyRight") auto
  have k2: "handleEvent album_selected KeyRight = Inr (projr (handleEvent album_selected KeyRight))"
    using ok(3) by simp
  note c2 = position_writes_and_guard
      [of album_selected KeyRight "fst (projr (event_branch album_selected KeyRight))"
          "projr (handleEvent album_selected KeyRight)",
        THEN conjunct2, THEN conjunct2, THEN conjunct1, rule_format, OF conjI, OF k1 k2]
  have t3: "\<not> isl (ensureVisible flat20 (Some 8))"
    by (rule position_writes_and_guard
      [of flat20 _ _ _ "Some 8" _ _ _ _ 1 8,
        THEN conjunct2, THEN conjunct2, THEN conjunct2, THEN conjunct2, THEN conjunct2,
        THEN conjunct2, rule_format, OF conjI, OF ok(5) conjI, OF ok(6) ok(7)])
  have t4: "\<not> isl (scroll flat20 kDown)"
    by (rule position_writes_and_guard
      [of flat20 _ _ _ _ _ kDown _ 1,
        THEN conjunct2, THEN conjunct2, THEN conjunct2, THEN conjunct2, THEN conjunct2,
        THEN conjunct1, rule_format, OF v(5)])
  have e3: "ensureVisible flat20 (Some 8) = Inr (True, snd (projr (ensureVisible flat20 (Some 8))))"
    using t3 ok(8) by (cases "ensureVisible flat20 (Some 8)") auto
  have e4: "scroll flat20 kDown = Inr (projr (scroll flat20 kDown))"
    using t4 by simp
  have c3: "m_firstPos (snd (projr (ensureVisible flat20 (Some 8)))) = Some 7"
    using position_writes_and_guard
      [of flat20 _ _ _ "Some 8" "snd (projr (ensureVisible flat20 (Some 8)))",
        THEN conjunct2, THEN conjunct2, THEN conjunct2, THEN conjunct1, rule_format,
        OF conjI, OF ok(4) conjI, OF e3 r(3), THEN conjunct2]
    by (simp add: r(1))
  have c4: "m_firstPos (projr (scroll flat20 kDown)) = Some 3"
    using position_writes_and_guard
      [of flat20 _ _ _ _ _ kDown "projr (scroll flat20 kDown)",
        THEN conjunct2, THEN conjunct2, THEN conjunct2, THEN conjunct2, THEN conjunct1,
        rule_format, OF conjI, OF ok(4) conjI, OF e4 r(4), THEN conjunct2]
    by (simp add: r(2))
  from c0 b c1 ok v c2 t3 t4 c3 c4 show ?thesis
    by simp
qed

subsection \<open>The key Page Down\<close>

lemma first_of_nth: "rs \<noteq> [] \<Longrightarrow> first_of rs = Some (row_id (rs ! 0))"
  by (cases rs) (simp_all add: first_of_def)

lemma next_in_nth:
  "distinct (map row_id rs) \<Longrightarrow> a < length rs \<Longrightarrow>
   next_in rs (Some (row_id (rs ! a))) =
     (if Suc a < length rs then Some (row_id (rs ! Suc a)) else None)"
proof (induction rs arbitrary: a)
  case Nil
  then show ?case by simp
next
  case (Cons r rs)
  show ?case
  proof (cases a)
    case 0
    then show ?thesis by (cases rs) (simp_all add: first_of_def)
  next
    case (Suc k)
    with Cons.prems have k: "k < length rs" and d: "distinct (map row_id rs)"
      by simp_all
    from Cons.prems nth_mem[OF k] have ne: "row_id (rs ! k) \<noteq> row_id r"
      by (auto simp: image_iff)
    from Cons.IH[OF d k] Suc ne show ?thesis by simp
  qed
qed

lemma rows_from_nth: "a < length rs \<Longrightarrow> rows_from rs (Some (row_id (rs ! a))) \<noteq> []"
  by (auto simp: rows_from_def dropWhile_eq_Nil_conv)

lemma next_item_nth:
  "a < length (traversal s) \<Longrightarrow>
   next_item s (Some (row_id (traversal s ! a))) =
     next_in (traversal s) (Some (row_id (traversal s ! a)))"
  by (simp add: next_item_def rows_from_nth)

lemma c_div_half: "0 \<le> m \<Longrightarrow> c_div (3 * m) 2 = (3 * m) div 2"
  by (cases "m = 0") (simp_all add: c_div_def)

lemma c_div_half_neg: "m < 0 \<Longrightarrow> c_div (3 * m) 2 < 0"
proof -
  assume m: "m < 0"
  then have "1 \<le> \<bar>3 * m\<bar> div 2" by linarith
  with m show ?thesis by (simp add: c_div_def sgn_if)
qed

lemma pagedown_loop_stops: "i < 0 \<Longrightarrow> pagedown_loop s it i b = (it, b)"
  by (simp add: pagedown_loop.simps)

lemma pagedown_loop_reaches:
  assumes d: "distinct (map row_id (traversal s))"
  shows "a < length (traversal s) \<Longrightarrow> 0 \<le> i \<Longrightarrow>
     pagedown_loop s (Some (row_id (traversal s ! a))) i b =
       (Some (row_id (traversal s ! min (a + nat i + 1) (length (traversal s) - 1))),
        b \<or> Suc a < length (traversal s))"
proof (induction "nat i" arbitrary: a i b)
  case 0
  then have i: "i = 0" by simp
  show ?case
  proof (cases "Suc a < length (traversal s)")
    case False
    with "0.prems" have m: "min (a + nat i + 1) (length (traversal s) - 1) = a" by simp
    from False next_in_nth[OF d "0.prems"(1)]
    have "pagedown_loop s (Some (row_id (traversal s ! a))) i b =
          (Some (row_id (traversal s ! a)), b)"
      by (subst pagedown_loop.simps) (simp add: i next_item_nth[OF "0.prems"(1)] Let_def)
    with False show ?thesis unfolding m by simp
  next
    case True
    then have m: "min (a + nat i + 1) (length (traversal s) - 1) = Suc a" by (simp add: i)
    from True next_in_nth[OF d "0.prems"(1)]
    have "pagedown_loop s (Some (row_id (traversal s ! a))) i b =
          (Some (row_id (traversal s ! Suc a)), True)"
      by (subst pagedown_loop.simps)
        (simp add: i next_item_nth[OF "0.prems"(1)] Let_def pagedown_loop_stops)
    with True show ?thesis unfolding m by simp
  qed
next
  case (Suc n)
  then have i: "0 \<le> i - 1" "n = nat (i - 1)" by simp_all
  show ?case
  proof (cases "Suc a < length (traversal s)")
    case False
    with Suc.prems have m: "min (a + nat i + 1) (length (traversal s) - 1) = a" by simp
    from False Suc.prems next_in_nth[OF d Suc.prems(1)]
    have "pagedown_loop s (Some (row_id (traversal s ! a))) i b =
          (Some (row_id (traversal s ! a)), b)"
      by (subst pagedown_loop.simps) (simp add: next_item_nth[OF Suc.prems(1)] Let_def)
    with False show ?thesis unfolding m by simp
  next
    case True
    have n: "nat i = Suc (nat (i - 1))" using Suc.hyps(2) i(2) by simp
    have m: "min (Suc a + nat (i - 1) + 1) (length (traversal s) - 1) =
             min (a + nat i + 1) (length (traversal s) - 1)"
      by (simp add: n)
    from True Suc.prems next_in_nth[OF d Suc.prems(1)]
    have "pagedown_loop s (Some (row_id (traversal s ! a))) i b =
          pagedown_loop s (Some (row_id (traversal s ! Suc a))) (i - 1) True"
      by (subst pagedown_loop.simps) (simp add: next_item_nth[OF Suc.prems(1)] Let_def)
    also have "\<dots> = (Some (row_id (traversal s !
                   min (Suc a + nat (i - 1) + 1) (length (traversal s) - 1))),
                 True \<or> Suc (Suc a) < length (traversal s))"
      by (rule Suc.hyps(1)[OF i(2) True i(1)])
    finally show ?thesis unfolding m using True by simp
  qed
qed

text \<open>
  C7, as stated, fails: with twenty leaves, four rows and the first leaf at the top, the
  loop starts at \<open>i = 6\<close> and runs while \<open>i \<ge> 0\<close>, so it steps seven times and reaches
  the leaf of rank 8, not the leaf of rank \<open>1 + 6\<close>.
\<close>

theorem pagedown_walks_one_more:
  "maxItems flat20 = 4 \<and> item_count flat20 = 20 \<and> getRank flat20 (m_firstPos flat20) = Some 1 \<and>
   map_prod (getRank flat20) id
     (pagedown_loop flat20 (m_firstPos flat20) (c_div (3 * maxItems flat20) 2) False) =
     (Some 8, True) \<and>
   (8 :: int) \<noteq> 1 + c_div (3 * 4) 2"
  by code_simp

text \<open>
  C7, amended. From an anchor at index \<open>a\<close> of a traversal with distinct identities, and
  with \<^verbatim>\<open>maxItems()\<close> not negative, the key Page Down steps forward
  \<open>\<lfloor>1.5 * maxItems()\<rfloor> + 1\<close> items, stopping early at the last item; if it stepped at all
  it calls \<^verbatim>\<open>ensureVisible\<close> on the item reached and rebuilds the image, and otherwise it
  does nothing. With \<^verbatim>\<open>maxItems()\<close> negative (no position) it does nothing. With twenty
  leaves, four rows and the anchor at rank 1 the item reached has rank 8,
  \<^verbatim>\<open>ensureVisible\<close> writes the position \<open>1 - 7/19\<close> (the variable, a \<^verbatim>\<open>float\<close>, holds
  the nearest number of its type), and the position handler puts the anchor at rank 7.
\<close>

theorem key_pagedown_walk:
  "(distinct (map row_id (traversal s)) \<and> a < length (traversal s) \<and>
    m_firstPos s = Some (row_id (traversal s ! a)) \<and> 0 \<le> maxItems s \<longrightarrow>
      pagedown_loop s (m_firstPos s) (c_div (3 * maxItems s) 2) False =
        (Some (row_id (traversal s !
                 min (a + nat ((3 * maxItems s) div 2) + 1) (length (traversal s) - 1))),
         Suc a < length (traversal s)) \<and>
      key_pagedown s =
        (if Suc a < length (traversal s)
         then (case ensureVisible s
                      (Some (row_id (traversal s !
                         min (a + nat ((3 * maxItems s) div 2) + 1) (length (traversal s) - 1)))) of
                 Inl e \<Rightarrow> Inl e
               | Inr (scrolled, s') \<Rightarrow> Inr (makeImage s'))
         else Inr s)) \<and>
   (maxItems s < 0 \<longrightarrow> key_pagedown s = Inr s) \<and>
   map_prod (getRank flat20) id
     (pagedown_loop flat20 (m_firstPos flat20) (c_div (3 * maxItems flat20) 2) False) =
     (Some 8, True) \<and>
   map_sum id (\<lambda>s'. (m_positionVar s', getRank s' (m_firstPos s'))) (key_pagedown flat20) =
     Inr (Finite (1324517 / 2097152), Some 7) \<and>
   \<bar>1324517 / 2097152 - (1 - 7 / 19 :: rat)\<bar> \<le> 1 / 2 ^ 24"
proof (intro conjI impI)
  assume h: "distinct (map row_id (traversal s)) \<and> a < length (traversal s) \<and>
    m_firstPos s = Some (row_id (traversal s ! a)) \<and> 0 \<le> maxItems s"
  then have i: "0 \<le> (3 * maxItems s) div 2" by simp
  from h pagedown_loop_reaches[of s a "(3 * maxItems s) div 2" False] i
  show w: "pagedown_loop s (m_firstPos s) (c_div (3 * maxItems s) 2) False =
        (Some (row_id (traversal s !
                 min (a + nat ((3 * maxItems s) div 2) + 1) (length (traversal s) - 1))),
         Suc a < length (traversal s))"
    by (simp add: c_div_half)
  show "key_pagedown s =
        (if Suc a < length (traversal s)
         then (case ensureVisible s
                      (Some (row_id (traversal s !
                         min (a + nat ((3 * maxItems s) div 2) + 1) (length (traversal s) - 1)))) of
                 Inl e \<Rightarrow> Inl e
               | Inr (scrolled, s') \<Rightarrow> Inr (makeImage s'))
         else Inr s)"
    by (simp add: key_pagedown_def w)
next
  assume "maxItems s < 0"
  then show "key_pagedown s = Inr s"
    by (simp add: key_pagedown_def pagedown_loop_stops c_div_half_neg)
next
  show "map_prod (getRank flat20) id
     (pagedown_loop flat20 (m_firstPos flat20) (c_div (3 * maxItems flat20) 2) False) =
     (Some 8, True)"
    by code_simp
next
  show "map_sum id (\<lambda>s'. (m_positionVar s', getRank s' (m_firstPos s'))) (key_pagedown flat20) =
     Inr (Finite (1324517 / 2097152), Some 7)"
    by code_simp
next
  show "\<bar>1324517 / 2097152 - (1 - 7 / 19 :: rat)\<bar> \<le> 1 / 2 ^ 24"
    by simp
qed

theorem key_pagedown_walk_witness:
  "distinct (map row_id (traversal flat20)) \<and> (0 :: nat) < length (traversal flat20) \<and>
   m_firstPos flat20 = Some (row_id (traversal flat20 ! 0)) \<and> 0 \<le> maxItems flat20 \<and>
   pagedown_loop flat20 (m_firstPos flat20) (c_div (3 * maxItems flat20) 2) False =
     (Some 8, True) \<and>
   key_pagedown flat20 =
     (case ensureVisible flat20 (Some 8) of
        Inl e \<Rightarrow> Inl e | Inr (scrolled, s') \<Rightarrow> Inr (makeImage s')) \<and>
   maxItems unplaced < 0 \<and> key_pagedown unplaced = Inr unplaced"
proof -
  have h: "distinct (map row_id (traversal flat20))" "(0 :: nat) < length (traversal flat20)"
    "m_firstPos flat20 = Some (row_id (traversal flat20 ! 0))" "0 \<le> maxItems flat20"
    by code_simp+
  have n: "maxItems unplaced < 0"
    by code_simp
  have r: "row_id (traversal flat20 !
             min (0 + nat ((3 * maxItems flat20) div 2) + 1) (length (traversal flat20) - 1)) = 8"
    "Suc 0 < length (traversal flat20)"
    by code_simp+
  note w = key_pagedown_walk [of flat20 0, THEN conjunct1, rule_format,
      OF conjI, OF h(1) conjI, OF h(2) conjI, OF h(3) h(4)]
  note u = key_pagedown_walk [of unplaced, THEN conjunct2, THEN conjunct1, rule_format, OF n]
  from w r have
    "pagedown_loop flat20 (m_firstPos flat20) (c_div (3 * maxItems flat20) 2) False =
       (Some 8, True)"
    "key_pagedown flat20 =
       (case ensureVisible flat20 (Some 8) of
          Inl e \<Rightarrow> Inl e | Inr (scrolled, s') \<Rightarrow> Inr (makeImage s'))"
    by simp_all
  with h n u show ?thesis by simp
qed

subsection \<open>ensureVisible\<close>

text \<open>
  Expanding the ancestors of an item that participates does not change the identities of
  the traversal: in flat mode the leaves do not depend on the expansion, and in hierarchical
  mode the ancestors of a visible item are expanded already (the identities being distinct).
\<close>

lemma row_id_pair [simp]: "row_id (d, x) = m_id x"
  by (simp add: row_id_def)

lemma rank_in_ids:
  "map row_id rs = map row_id rs' \<Longrightarrow> rank_in rs it = rank_in rs' it"
proof (induction rs arbitrary: rs')
  case Nil
  then show ?case by simp
next
  case (Cons r rs)
  then obtain q qs where rs': "rs' = q # qs" by (cases rs') auto
  with Cons.prems have "row_id r = row_id q" "map row_id rs = map row_id qs" by simp_all
  with Cons.IH[of qs] rs' show ?case by simp
qed

lemma rank_in_member: "rank_in rs it = Some n \<Longrightarrow> \<exists>i. it = Some i \<and> i \<in> row_id ` set rs"
  by (induction rs arbitrary: n) (auto split: if_splits option.splits)

lemma leaf_rows_expand:
  "map row_id (leaf_rows d (expand_towards i x)) = map row_id (leaf_rows d x)"
proof (induction x arbitrary: d)
  case (Item j l s e del p cs)
  have "concat (map (\<lambda>c. map row_id (leaf_rows (Suc d) (expand_towards i c))) cs) =
        concat (map (\<lambda>c. map row_id (leaf_rows (Suc d) c)) cs)"
    using Item.IH by (auto intro!: arg_cong[where f = concat])
  then show ?case
    by (simp add: map_concat comp_def)
qed

lemma contains_ids: "contains i x \<longleftrightarrow> i \<in> row_id ` set (all_rows d x)"
proof (induction x arbitrary: d)
  case (Item j l s e del p cs)
  then show ?case
    by (auto simp: list_ex_iff)
qed

lemma expand_towards_absent: "\<not> contains i x \<Longrightarrow> expand_towards i x = x"
proof (induction x)
  case (Item j l s e del p cs)
  then have "\<forall>c\<in>set cs. \<not> contains i c" by (auto simp: list_ex_iff)
  with Item.IH have "map (expand_towards i) cs = cs" by (auto intro: map_idI)
  with Item.prems show ?case by simp
qed

lemma visible_rows_all: "set (visible_rows d x) \<subseteq> set (all_rows d x)"
proof (induction x arbitrary: d)
  case (Item j l s e del p cs)
  then show ?case by auto
qed

lemma distinct_concat_unique:
  "distinct (concat (map g cs)) \<Longrightarrow> c \<in> set cs \<Longrightarrow> c' \<in> set cs \<Longrightarrow>
   x \<in> set (g c) \<Longrightarrow> x \<in> set (g c') \<Longrightarrow> c = c'"
  by (induction cs) auto

lemma distinct_concat_part:
  "distinct (concat (map g cs)) \<Longrightarrow> c \<in> set cs \<Longrightarrow> distinct (g c)"
  by (induction cs) auto

lemma expand_forest:
  assumes d: "distinct (map row_id (concat (map (all_rows n) cs)))"
    and v: "i \<in> row_id ` set (concat (map (visible_rows n) cs))"
    and ih: "\<And>c. c \<in> set cs \<Longrightarrow> distinct (map row_id (all_rows n c)) \<Longrightarrow>
               i \<in> row_id ` set (visible_rows n c) \<Longrightarrow> expand_towards i c = c"
  shows "map (expand_towards i) cs = cs"
proof (rule map_idI)
  fix c assume c: "c \<in> set cs"
  from d have d': "distinct (concat (map (\<lambda>c. map row_id (all_rows n c)) cs))"
    by (simp add: map_concat comp_def)
  from v obtain c0 where c0: "c0 \<in> set cs" "i \<in> row_id ` set (visible_rows n c0)"
    by auto
  with visible_rows_all[of n c0] have a0: "i \<in> set (map row_id (all_rows n c0))" by auto
  show "expand_towards i c = c"
  proof (cases "contains i c")
    case False
    then show ?thesis by (rule expand_towards_absent)
  next
    case True
    then have "i \<in> set (map row_id (all_rows n c))" using contains_ids[of i c n] by simp
    from distinct_concat_unique[OF d' c c0(1) this a0] have "c = c0" .
    with c0 ih[OF c distinct_concat_part[OF d' c]] show ?thesis by simp
  qed
qed

lemma expand_towards_visible:
  "distinct (map row_id (all_rows d x)) \<Longrightarrow> i \<in> row_id ` set (visible_rows d x) \<Longrightarrow>
   expand_towards i x = x"
proof (induction x arbitrary: d)
  case (Item j l s e del p cs)
  from Item.prems(1) have dc: "distinct (map row_id (concat (map (all_rows (Suc d)) cs)))"
    and nj: "j \<notin> row_id ` set (concat (map (all_rows (Suc d)) cs))"
    by auto
  show ?case
  proof (cases "i = j")
    case True
    with nj have "\<forall>c\<in>set cs. \<not> contains i c"
      using contains_ids[of i _ "Suc d"] by auto
    then have "map (expand_towards i) cs = cs" "\<not> list_ex (contains i) cs"
      by (auto intro: map_idI expand_towards_absent simp: list_ex_iff)
    then show ?thesis by simp
  next
    case False
    with Item.prems(2) have e: "e" and
      v: "i \<in> row_id ` set (concat (map (visible_rows (Suc d)) cs))"
      by (auto split: if_splits)
    have "map (expand_towards i) cs = cs"
      by (rule expand_forest[OF dc v]) (rule Item.IH)
    with e show ?thesis by simp
  qed
qed

lemma ensureExpanded_visible:
  "distinct (map row_id (tree_rows t)) \<Longrightarrow> i \<in> row_id ` set (participating False t) \<Longrightarrow>
   ensureExpanded t (Some i) = t"
  unfolding ensureExpanded_def tree_rows_def participating_def
  by (simp, rule expand_forest) (auto intro: expand_towards_visible)

lemma ensureExpanded_flat:
  "map row_id (participating True (ensureExpanded t it)) = map row_id (participating True t)"
proof (cases it)
  case None
  then show ?thesis by (simp add: ensureExpanded_def)
next
  case (Some i)
  have "concat (map (\<lambda>c. map row_id (leaf_rows 1 (expand_towards i c))) t) =
        concat (map (\<lambda>c. map row_id (leaf_rows 1 c)) t)"
    by (simp add: leaf_rows_expand)
  with Some show ?thesis
    by (simp add: ensureExpanded_def participating_def map_concat comp_def)
qed


lemma ensureExpanded_traversal_ids:
  assumes d: "distinct (map row_id (tree_rows (m_rTree s)))"
    and r: "getRank s item = Some rank"
  shows "map row_id (traversal (s\<lparr>m_rTree := ensureExpanded (m_rTree s) item\<rparr>)) =
         map row_id (traversal s)"
proof (cases "m_flat s")
  case True
  then show ?thesis by (simp add: traversal_def ensureExpanded_flat)
next
  case False
  from r rank_in_member[of "traversal s" item rank] obtain i where
    i: "item = Some i" "i \<in> row_id ` set (traversal s)"
    by (auto simp: getRank_def)
  with False ensureExpanded_visible[OF d, of i] show ?thesis
    by (simp add: traversal_def)
qed


lemma quotient_position_error:
  assumes q: "0 \<le> q" "q \<le> 1" and p: "0 < p"
  shows "0 \<le> fp_round 53 (1 - fp_round 53 q)" "fp_round 53 (1 - fp_round 53 q) \<le> 1"
    "\<bar>fp_round p (fp_round 53 (1 - fp_round 53 q)) - (1 - q)\<bar> \<le> 1 / 2 ^ p + 1 / 2 ^ 52"
proof -
  define q' where "q' = fp_round 53 q"
  define a where "a = fp_round 53 (1 - q')"
  have q': "0 \<le> q'" "q' \<le> 1"
    unfolding q'_def using fp_round_unit[of q 53] q by simp_all
  then have a: "0 \<le> a" "a \<le> 1"
    unfolding a_def using fp_round_unit[of "1 - q'" 53] by simp_all
  then show "0 \<le> fp_round 53 (1 - fp_round 53 q)" "fp_round 53 (1 - fp_round 53 q) \<le> 1"
    by (simp_all add: a_def q'_def)
  have "\<bar>q' - q\<bar> \<le> \<bar>q\<bar> / 2 ^ 53"
    unfolding q'_def by (rule fp_round_error) simp
  also have "\<dots> \<le> 1 / 2 ^ 53" using q by (simp add: divide_right_mono)
  finally have e1: "\<bar>q' - q\<bar> \<le> 1 / 2 ^ 53" .
  have "\<bar>a - (1 - q')\<bar> \<le> \<bar>1 - q'\<bar> / 2 ^ 53"
    unfolding a_def by (rule fp_round_error) simp
  also have "\<dots> \<le> 1 / 2 ^ 53" using q' by (simp add: divide_right_mono)
  finally have e2: "\<bar>a - (1 - q')\<bar> \<le> 1 / 2 ^ 53" .
  have "\<bar>fp_round p a - a\<bar> \<le> \<bar>a\<bar> / 2 ^ p"
    by (rule fp_round_error[OF p])
  also have "\<dots> \<le> 1 / 2 ^ p" using a by (simp add: divide_right_mono)
  finally have e3: "\<bar>fp_round p a - a\<bar> \<le> 1 / 2 ^ p" .
  from e1 e2 e3 have "\<bar>fp_round p a - (1 - q)\<bar> \<le> 1 / 2 ^ p + (1 / 2 ^ 53 + 1 / 2 ^ 53)"
    by linarith
  then show "\<bar>fp_round p (fp_round 53 (1 - fp_round 53 q)) - (1 - q)\<bar> \<le> 1 / 2 ^ p + 1 / 2 ^ 52"
    by (simp add: a_def q'_def)
qed

text \<open>
  C4, as stated, fails: with ten leaves, four rows and the first leaf at the top,
  \<^verbatim>\<open>ensureVisible\<close> of the leaf of rank 7 sets the position variable to the float nearest
  to \<open>1 - 6/9\<close>, the index of the item (its rank less one) over the greatest index, far from
  \<open>1 - 7/9\<close> and from the float that this value would give.
\<close>

theorem ensureVisible_position_by_index:
  "getRank flat10_top (m_firstPos flat10_top) = Some 1 \<and> getRank flat10_top (Some 7) = Some 7 \<and>
   item_count flat10_top = 10 \<and> maxItems flat10_top = 4 \<and>
   map_sum id (\<lambda>r. (fst r, m_positionVar (snd r))) (ensureVisible flat10_top (Some 7)) =
     Inr (True, Finite (11184811 / 33554432)) \<and>
   \<bar>11184811 / 33554432 - (1 - 6 / (10 - 1) :: rat)\<bar> \<le> 1 / 2 ^ 24 \<and>
   1 / 10 < \<bar>11184811 / 33554432 - (1 - 7 / (10 - 1) :: rat)\<bar> \<and>
   clamp_percentage 24 (fp_sub 53 (Finite 1) (fp_div 53 (d_of_int 7) (d_of_int (10 - 1)))) \<noteq>
     Finite (11184811 / 33554432)"
  by code_simp

text \<open>
  C4, amended. In a tree with distinct identities, for an item of rank \<open>rank\<close> and an anchor
  of rank \<open>anchorRank\<close>, \<^verbatim>\<open>ensureVisible\<close> first expands the ancestors of the item
  (\<^verbatim>\<open>m_rTree.ensureExpanded\<close>); then, if the rank lies outside
  \<open>[anchorRank, anchorRank + maxItems() - 1]\<close>, it writes the double
  \<open>1.0 - (rank - 1) / (count - 1)\<close> to the position variable and returns true; otherwise it
  changes nothing else and returns false. With more than one participating item the variable
  then holds the number of its type nearest to that double, which is within \<open>2\<close> to the
  power of minus its precision, plus \<open>2\<close> to the power of \<open>- 52\<close>, of the exact value
  \<open>1 - (rank - 1) / (count - 1)\<close>; with one participating item the double is \<open>0.0 / 0.0\<close>,
  NaN.
\<close>

theorem ensureVisible_scrolls:
  "distinct (map row_id (tree_rows (m_rTree s))) \<and> getRank s (m_firstPos s) = Some anchorRank \<and>
   getRank s item = Some rank \<longrightarrow>
     ensureVisible s item =
       (if rank < anchorRank \<or> rank > anchorRank + maxItems s - 1
        then (case set_position (s\<lparr>m_rTree := ensureExpanded (m_rTree s) item\<rparr>)
                     (fp_sub 53 (Finite 1)
                        (fp_div 53 (d_of_int (rank - 1)) (d_of_int (item_count s - 1)))) of
                Inl e \<Rightarrow> Inl e
              | Inr s' \<Rightarrow> Inr (True, s'))
        else Inr (False, s\<lparr>m_rTree := ensureExpanded (m_rTree s) item\<rparr>)) \<and>
     (item_count s \<noteq> 1 \<and> 0 < m_positionBits s \<longrightarrow>
        map_sum id m_positionVar
          (set_position (s\<lparr>m_rTree := ensureExpanded (m_rTree s) item\<rparr>)
             (fp_sub 53 (Finite 1)
                (fp_div 53 (d_of_int (rank - 1)) (d_of_int (item_count s - 1))))) =
          Inr (Finite
                 (fp_round (m_positionBits s)
                    (fp_round 53
                       (1 - fp_round 53 (of_int (rank - 1) / of_int (item_count s - 1)))))) \<and>
        \<bar>fp_round (m_positionBits s)
            (fp_round 53 (1 - fp_round 53 (of_int (rank - 1) / of_int (item_count s - 1)))) -
          (1 - of_int (rank - 1) / of_int (item_count s - 1))\<bar> \<le>
          1 / 2 ^ m_positionBits s + 1 / 2 ^ 52) \<and>
     (item_count s = 1 \<longrightarrow>
        fp_sub 53 (Finite 1) (fp_div 53 (d_of_int (rank - 1)) (d_of_int (item_count s - 1))) =
          NaN)"
proof (intro impI)
  assume h: "distinct (map row_id (tree_rows (m_rTree s))) \<and>
    getRank s (m_firstPos s) = Some anchorRank \<and> getRank s item = Some rank"
  define s1 where "s1 = s\<lparr>m_rTree := ensureExpanded (m_rTree s) item\<rparr>"
  define X where "X = fp_sub 53 (Finite 1)
      (fp_div 53 (d_of_int (rank - 1)) (d_of_int (item_count s - 1)))"
  define q :: rat where "q = of_int (rank - 1) / of_int (item_count s - 1)"
  from h have ids: "map row_id (traversal s1) = map row_id (traversal s)"
    unfolding s1_def by (intro ensureExpanded_traversal_ids) auto
  have ranks: "getRank s1 it = getRank s it" for it
    by (simp add: getRank_def rank_in_ids[OF ids])
  have "length (map row_id (traversal s1)) = length (map row_id (traversal s))"
    by (simp only: ids)
  then have count: "item_count s1 = item_count s"
    by (simp add: item_count_def)
  have misc: "m_firstPos s1 = m_firstPos s" "maxItems s1 = maxItems s"
    "m_positionBits s1 = m_positionBits s"
    by (simp_all add: s1_def)
  from h have ev: "ensureVisible s item =
       (if rank < anchorRank \<or> rank > anchorRank + maxItems s - 1
        then (case set_position s1 X of Inl e \<Rightarrow> Inl e | Inr s' \<Rightarrow> Inr (True, s'))
        else Inr (False, s1))"
    by (simp add: ensureVisible_def Let_def s1_def[symmetric] ranks count misc X_def)
  from h have b: "1 \<le> rank" "rank \<le> item_count s"
    using rank_in_pos[of "traversal s" item rank] rank_in_le[of "traversal s" item rank]
    by (simp_all add: getRank_def item_count_def)
  have stored: "map_sum id m_positionVar (set_position s1 X) =
          Inr (Finite (fp_round (m_positionBits s) (fp_round 53 (1 - fp_round 53 q))))"
    and close: "\<bar>fp_round (m_positionBits s) (fp_round 53 (1 - fp_round 53 q)) - (1 - q)\<bar> \<le>
          1 / 2 ^ m_positionBits s + 1 / 2 ^ 52"
    if c: "item_count s \<noteq> 1" and p: "0 < m_positionBits s"
  proof -
    from b c have c0: "0 < item_count s - 1" by simp
    have q0: "0 \<le> q" using b c0 by (simp add: q_def)
    have q1: "q \<le> 1" using b c0 by (simp add: q_def)
    from c0 have X: "X = Finite (fp_round 53 (1 - fp_round 53 q))"
      by (simp add: X_def q_def fp_sub_def d_of_int_def)
    note e = quotient_position_error[OF q0 q1 p]
    from clamp_percentage_unit[OF e(1) e(2) p]
    have "clamp_percentage (m_positionBits s1) X =
          Finite (fp_round (m_positionBits s) (fp_round 53 (1 - fp_round 53 q)))"
      by (simp add: X misc)
    from set_position_finite[OF this]
    show "map_sum id m_positionVar (set_position s1 X) =
          Inr (Finite (fp_round (m_positionBits s) (fp_round 53 (1 - fp_round 53 q))))" .
    show "\<bar>fp_round (m_positionBits s) (fp_round 53 (1 - fp_round 53 q)) - (1 - q)\<bar> \<le>
          1 / 2 ^ m_positionBits s + 1 / 2 ^ 52"
      by (rule e(3))
  qed
  have nan: "X = NaN" if "item_count s = 1"
    using that b by (simp add: X_def fp_sub_def d_of_int_def inf_of_sign_def)
  from ev stored close nan show "ensureVisible s item =
       (if rank < anchorRank \<or> rank > anchorRank + maxItems s - 1
        then (case set_position (s\<lparr>m_rTree := ensureExpanded (m_rTree s) item\<rparr>)
                     (fp_sub 53 (Finite 1)
                        (fp_div 53 (d_of_int (rank - 1)) (d_of_int (item_count s - 1)))) of
                Inl e \<Rightarrow> Inl e
              | Inr s' \<Rightarrow> Inr (True, s'))
        else Inr (False, s\<lparr>m_rTree := ensureExpanded (m_rTree s) item\<rparr>)) \<and>
     (item_count s \<noteq> 1 \<and> 0 < m_positionBits s \<longrightarrow>
        map_sum id m_positionVar
          (set_position (s\<lparr>m_rTree := ensureExpanded (m_rTree s) item\<rparr>)
             (fp_sub 53 (Finite 1)
                (fp_div 53 (d_of_int (rank - 1)) (d_of_int (item_count s - 1))))) =
          Inr (Finite
                 (fp_round (m_positionBits s)
                    (fp_round 53
                       (1 - fp_round 53 (of_int (rank - 1) / of_int (item_count s - 1)))))) \<and>
        \<bar>fp_round (m_positionBits s)
            (fp_round 53 (1 - fp_round 53 (of_int (rank - 1) / of_int (item_count s - 1)))) -
          (1 - of_int (rank - 1) / of_int (item_count s - 1))\<bar> \<le>
          1 / 2 ^ m_positionBits s + 1 / 2 ^ 52) \<and>
     (item_count s = 1 \<longrightarrow>
        fp_sub 53 (Finite 1) (fp_div 53 (d_of_int (rank - 1)) (d_of_int (item_count s - 1))) =
          NaN)"
    unfolding s1_def X_def q_def by simp
qed

theorem ensureVisible_scrolls_witness:
  "distinct (map row_id (tree_rows (m_rTree flat13))) \<and>
   getRank flat13 (m_firstPos flat13) = Some 4 \<and> getRank flat13 (Some 11) = Some 11 \<and>
   item_count flat13 \<noteq> 1 \<and> 0 < m_positionBits flat13 \<and>
   map_sum id (\<lambda>r. (fst r, m_positionVar (snd r), m_firstPos (snd r)))
     (ensureVisible flat13 (Some 11)) = Inr (True, Finite (11184811 / 67108864), Some 8) \<and>
   map_sum id m_positionVar
     (set_position (flat13\<lparr>m_rTree := ensureExpanded (m_rTree flat13) (Some 11)\<rparr>)
        (fp_sub 53 (Finite 1) (fp_div 53 (d_of_int (11 - 1)) (d_of_int (item_count flat13 - 1))))) =
     Inr (Finite (11184811 / 67108864)) \<and>
   distinct (map row_id (tree_rows (m_rTree album_flat))) \<and>
   getRank album_flat (m_firstPos album_flat) = Some 1 \<and>
   getRank album_flat (Some 4) = Some 3 \<and>
   ensureVisible album_flat (Some 4) =
     Inr (False, album_flat\<lparr>m_rTree := ensureExpanded (m_rTree album_flat) (Some 4)\<rparr>) \<and>
   map m_expanded (m_rTree album_flat) = [False, False, False] \<and>
   map m_expanded (ensureExpanded (m_rTree album_flat) (Some 4)) = [False, True, False] \<and>
   distinct (map row_id (tree_rows (m_rTree single))) \<and>
   getRank single (m_firstPos single) = Some 1 \<and> getRank single (Some 1) = Some 1 \<and>
   item_count single = 1 \<and>
   fp_sub 53 (Finite 1) (fp_div 53 (d_of_int (1 - 1)) (d_of_int (item_count single - 1))) = NaN"
proof -
  have h: "distinct (map row_id (tree_rows (m_rTree flat13)))"
    "getRank flat13 (m_firstPos flat13) = Some 4"
    "getRank flat13 (Some 11) = Some 11" "item_count flat13 \<noteq> 1" "0 < m_positionBits flat13"
    by code_simp+
  have k: "distinct (map row_id (tree_rows (m_rTree album_flat)))"
    "getRank album_flat (m_firstPos album_flat) = Some 1"
    "getRank album_flat (Some 4) = Some 3"
    by code_simp+
  have o: "distinct (map row_id (tree_rows (m_rTree single)))"
    "getRank single (m_firstPos single) = Some 1" "getRank single (Some 1) = Some 1"
    "item_count single = 1"
    by code_simp+
  have v: "item_count flat13 = 13" "maxItems flat13 = 4" "maxItems album_flat = 4"
    "map m_expanded (m_rTree album_flat) = [False, False, False]"
    "map m_expanded (ensureExpanded (m_rTree album_flat) (Some 4)) = [False, True, False]"
    "map_sum id (\<lambda>r. (fst r, m_positionVar (snd r), m_firstPos (snd r)))
       (ensureVisible flat13 (Some 11)) = Inr (True, Finite (11184811 / 67108864), Some 8)"
    by code_simp+
  have w: "fp_round (m_positionBits flat13)
       (fp_round 53 (1 - fp_round 53 (of_int (11 - 1) / of_int (item_count flat13 - 1)))) =
     11184811 / 67108864"
    by code_simp
  note a = ensureVisible_scrolls [of flat13 4 "Some 11" 11, rule_format,
      OF conjI, OF h(1) conjI, OF h(2) h(3), THEN conjunct2, THEN conjunct1, rule_format,
      OF conjI, OF h(4) h(5), THEN conjunct1]
  from a have a1: "map_sum id m_positionVar
     (set_position (flat13\<lparr>m_rTree := ensureExpanded (m_rTree flat13) (Some 11)\<rparr>)
        (fp_sub 53 (Finite 1) (fp_div 53 (d_of_int (11 - 1)) (d_of_int (item_count flat13 - 1))))) =
     Inr (Finite (11184811 / 67108864))"
    by (simp only: w)
  note b = ensureVisible_scrolls [of album_flat 1 "Some 4" 3, rule_format,
      OF conjI, OF k(1) conjI, OF k(2) k(3), THEN conjunct1]
  note c = ensureVisible_scrolls [of single 1 "Some 1" 1, rule_format,
      OF conjI, OF o(1) conjI, OF o(2) o(3), THEN conjunct2, THEN conjunct2, rule_format, OF o(4)]
  from b v have b1: "ensureVisible album_flat (Some 4) =
     Inr (False, album_flat\<lparr>m_rTree := ensureExpanded (m_rTree album_flat) (Some 4)\<rparr>)"
    by simp
  from h k o v a1 b1 c show ?thesis by simp
qed
end
